theory Spec2Isabelle
  imports Complex_Main "HOL-Library.Log_Nat"
begin

section \<open>JavaScript numbers\<close>

text \<open>
  The server computes with JavaScript Numbers (IEEE 754 binary64). A finite Number is
  modelled by the real it denotes, and every arithmetic operation returns the exact result
  rounded to the nearest binary64 value, ties to the even mantissa (\<open>fl\<close>). The
  mantissa has 53 bits; below \<open>2^-1022\<close> the spacing stays at \<open>2^-1074\<close>.
  Overflow to \<open>Infinity\<close> is not modelled, and \<open>NaN\<close> is modelled where the
  program can produce it (\<open>computeLevel\<close>, \<open>js_Number\<close>) by \<open>None\<close>.
  Integer columns of the database are modelled by \<open>int\<close>. The XP total and the
  level, which one request can take beyond \<open>2^53\<close>, are added as Numbers
  (\<open>num_add\<close>); the streak and tier counters, which grow by at most 1 per request,
  and timestamps and counts of rows are added exactly, as Numbers are below \<open>2^53\<close>.
  The definitions compute on rationals, except for the real square root in
  \<open>js_sqrt\<close>, for which \<open>computeLevel_exact\<close> below gives the level of a
  concrete XP total.
\<close>

definition pow2 :: "int \<Rightarrow> real" where
  "pow2 e = (if 0 \<le> e then 2 ^ nat e else 1 / 2 ^ nat (- e))"

definition round_half_even :: "real \<Rightarrow> int" where
  "round_half_even x =
     (let f = \<lfloor>x\<rfloor>; r = x - of_int f
      in if r < 1 / 2 then f else if 1 / 2 < r then f + 1 else if even f then f else f + 1)"

text \<open>For \<open>0 < x\<close>, \<open>ilog2 x\<close> is the exponent \<open>e\<close> with \<open>2^e \<le> x < 2^(e+1)\<close>.\<close>

definition ilog2 :: "real \<Rightarrow> int" where
  "ilog2 x = (if 1 \<le> x then int (floorlog 2 (nat \<lfloor>x\<rfloor>)) - 1
              else - int (floorlog 2 (nat (\<lceil>1 / x\<rceil> - 1))))"

definition ulp_exp :: "real \<Rightarrow> int" where
  "ulp_exp x = max (ilog2 \<bar>x\<bar> - 52) (- 1074)"

definition round_to_grid :: "int \<Rightarrow> real \<Rightarrow> real" where
  "round_to_grid e x = of_int (round_half_even (x / pow2 e)) * pow2 e"

definition fl :: "real \<Rightarrow> real" where
  "fl x = (if x = 0 then 0 else round_to_grid (ulp_exp x) x)"

definition js_add :: "real \<Rightarrow> real \<Rightarrow> real" where
  "js_add x y = fl (x + y)"

definition js_sub :: "real \<Rightarrow> real \<Rightarrow> real" where
  "js_sub x y = fl (x - y)"

definition js_mul :: "real \<Rightarrow> real \<Rightarrow> real" where
  "js_mul x y = fl (x * y)"

text \<open>
  Division is only used with the non-zero constant divisors 2, 7, 1000 and 86400000.
\<close>

definition js_div :: "real \<Rightarrow> real \<Rightarrow> real" where
  "js_div x y = fl (x / y)"

text \<open>
  \<open>Math.sqrt\<close> of a non-negative Number, correctly rounded as IEEE 754 prescribes for
  the square root.
\<close>

definition js_sqrt :: "real \<Rightarrow> real" where
  "js_sqrt x = fl (sqrt x)"

definition js_floor :: "real \<Rightarrow> int" where
  "js_floor x = \<lfloor>x\<rfloor>"

definition js_ceil :: "real \<Rightarrow> int" where
  "js_ceil x = \<lceil>x\<rceil>"

text \<open>\<open>Math.round\<close>: the nearest integer, a tie going towards \<open>+\<infinity>\<close>.\<close>

definition js_round :: "real \<Rightarrow> int" where
  "js_round x = \<lfloor>x + 1 / 2\<rfloor>"

text \<open>
  The sum of two integer-valued Numbers. The rounded sum of two integers is an integer
  again (\<open>num_add_integral\<close> below), and \<open>num_add\<close> is that integer: the exact
  sum below \<open>2^53\<close>, the nearest Number beyond.
\<close>

definition num_add :: "int \<Rightarrow> int \<Rightarrow> int" where
  "num_add a b = \<lfloor>js_add (of_int a) (of_int b)\<rfloor>"

text \<open>
  \<open>x.toFixed(2)\<close>, as the number its digit string denotes: the sign is split off, and
  of the integers \<open>n\<close> with \<open>n / 100\<close> nearest to the magnitude the larger one is taken.
  (From \<open>10^21\<close> on the method prints the Number itself; such a Number is an integer, so
  the string denotes the same value either way.) \<open>parseFloat\<close> reads a decimal string
  as the nearest Number.
\<close>

definition toFixed2 :: "real \<Rightarrow> real" where
  "toFixed2 x =
     (let a = \<bar>x\<bar>; lo = \<lfloor>a * 100\<rfloor>;
          n = (if a * 100 - of_int lo < 1 / 2 then lo else lo + 1)
      in (if x < 0 then - of_int n / 100 else of_int n / 100))"

definition parseFloat :: "real \<Rightarrow> real" where
  "parseFloat d = fl d"

section \<open>Helpers of the XP engine\<close>

text \<open>
  \<open>computeLevel\<close>: \<open>Math.floor(Math.sqrt(totalXP) / 2) + 1\<close>. The square root of a
  negative Number is \<open>NaN\<close>, and so is the level then: \<open>None\<close>.
\<close>

definition computeLevel :: "int \<Rightarrow> int option" where
  "computeLevel totalXP =
     (if totalXP < 0 then None
      else Some (num_add (js_floor (js_div (js_sqrt (of_int totalXP)) 2)) 1))"

text \<open>
  \<open>streakMultiplier\<close>. The decimal literals \<open>0.05\<close>, \<open>0.5\<close> and \<open>0.1\<close> denote
  the Numbers nearest to them.
\<close>

definition streakMultiplier :: "int \<Rightarrow> real" where
  "streakMultiplier streak =
     (if streak = 0 \<or> streak < 1 then 1
      else let perDay = min (js_mul (fl (5 / 100)) (of_int streak)) (fl (5 / 10));
               band = js_mul (of_int (js_floor (js_div (of_int streak) 7))) (fl (1 / 10))
           in parseFloat (toFixed2 (js_add (js_add 1 perDay) band)))"

text \<open>
  The two-decimal rounding as the specification words it: round half up on the decimal
  representation, the result being the Number nearest to that decimal.
\<close>

definition round2 :: "real \<Rightarrow> real" where
  "round2 x = fl (of_int \<lfloor>x * 100 + 1 / 2\<rfloor> / 100)"

section \<open>Tables\<close>

text \<open>
  A local date (the string \<open>YYYY-MM-DD\<close>) is modelled by its day number (the days
  from 1970-01-01 to it), so that the calendar difference of two dates is a subtraction and
  the string order is the order of the numbers; a timestamp by its milliseconds. Columns
  that the engine never reads
  (email, password hash, preferences, titles of quests, categories) are left out.
\<close>

record user_row =
  u_id :: string
  total_xp :: int
  level :: int
  current_streak :: int
  longest_streak :: int
  last_active_local_date :: "int option"
  avatar_tier :: int

record quest =
  q_id :: string
  q_base_points :: int
  q_cooldown_sec :: int
  q_active :: bool

record run =
  run_id :: string
  run_user_id :: string
  run_quest_id :: string
  run_gained_xp :: int
  run_streak_applied :: int
  run_created_at :: int
  run_local_date :: int

text \<open>
  The create-routine handler binds JavaScript Numbers to \<open>base_points\<close> and
  \<open>daily_target\<close>, and SQLite keeps a Number that is not an integer as it is.
\<close>

record routine =
  r_id :: string
  r_user_id :: string
  r_title :: string
  r_base_points :: real
  r_daily_target :: real
  r_active :: bool

record routine_log =
  rl_id :: string
  rl_routine_id :: string
  rl_user_id :: string
  rl_gained_xp :: int
  rl_created_at :: int
  rl_local_date :: int

record db =
  users :: "user_row list"
  quests :: "quest list"
  runs :: "run list"
  routines :: "routine list"
  routine_logs :: "routine_log list"

text \<open>
  The time zone of the server process, as far as \<open>dayjs\<close> reads it when it parses a
  date string \<open>YYYY-MM-DD\<close>. \<open>day_start_ms\<close> is the instant, in milliseconds
  since the epoch, of \<open>new Date(y, m - 1, d)\<close>: the local midnight that opens the
  date or, where a clock change skips that midnight, the first instant of the date.
  \<open>utc_offset_min\<close> is \<open>utcOffset()\<close> at that instant, in minutes.
\<close>

record time_zone =
  day_start_ms :: "int \<Rightarrow> int"
  utc_offset_min :: "int \<Rightarrow> int"

text \<open>
  What a request reads from its surroundings: the clock (\<open>Date.now()\<close>), the local
  date (\<open>localDateISO()\<close>), the identifier that \<open>nanoid()\<close> returns and the time
  zone. One reading of the clock serves the whole request.
\<close>

record env =
  now_ms :: int
  today :: int
  new_id :: string
  zone :: time_zone

text \<open>
  The rejections, named as in the specification: HTTP 400 \<open>Invalid questId\<close> and
  \<open>title required\<close>, 404 \<open>Routine not found\<close>, 429 \<open>Cooldown active\<close> with
  \<open>retryAfterSec\<close>, 400 \<open>Daily target already reached for this routine\<close>, and a
  statement that throws inside the transaction.
\<close>

datatype error =
    INVALID_INPUT
  | NOT_FOUND
  | RATE_LIMITED int
  | LIMIT_REACHED
  | STORAGE_FAILURE

section \<open>Prepared statements\<close>

definition getUser :: "db \<Rightarrow> string \<Rightarrow> user_row option" where
  "getUser d uid = find (\<lambda>u. u_id u = uid) (users d)"

definition upsertUser :: "user_row \<Rightarrow> user_row list \<Rightarrow> user_row list" where
  "upsertUser u us =
     (if find (\<lambda>x. u_id x = u_id u) us = None then us @ [u]
      else map (\<lambda>x. if u_id x = u_id u then u else x) us)"

definition getQuest :: "db \<Rightarrow> string \<Rightarrow> quest option" where
  "getQuest d qid = find (\<lambda>q. q_id q = qid \<and> q_active q) (quests d)"

text \<open>\<open>ORDER BY created_at DESC LIMIT 1\<close>: a row with the greatest timestamp.\<close>

definition lastRunForQuest :: "db \<Rightarrow> string \<Rightarrow> string \<Rightarrow> run option" where
  "lastRunForQuest d uid qid =
     (case filter (\<lambda>r. run_user_id r = uid \<and> run_quest_id r = qid) (runs d) of
        [] \<Rightarrow> None
      | r # rs \<Rightarrow>
          Some (foldl (\<lambda>a b. if run_created_at a < run_created_at b then b else a) r rs))"

definition getRoutineById :: "db \<Rightarrow> string \<Rightarrow> string \<Rightarrow> routine option" where
  "getRoutineById d rid uid =
     find (\<lambda>r. r_id r = rid \<and> r_user_id r = uid \<and> r_active r) (routines d)"

definition countRoutineLogsToday :: "db \<Rightarrow> string \<Rightarrow> string \<Rightarrow> int \<Rightarrow> int" where
  "countRoutineLogsToday d rid uid date =
     int (length (filter (\<lambda>l. rl_routine_id l = rid \<and> rl_user_id l = uid
                                \<and> rl_local_date l = date) (routine_logs d)))"

section \<open>Middleware: the user row exists\<close>

definition default_user :: "string \<Rightarrow> user_row" where
  "default_user uid =
     \<lparr>u_id = uid, total_xp = 0, level = 1, current_streak = 0, longest_streak = 0,
      last_active_local_date = None, avatar_tier = 0\<rparr>"

definition ensure_user :: "string \<Rightarrow> db \<Rightarrow> user_row \<times> db" where
  "ensure_user uid d =
     (case getUser d uid of
        Some u \<Rightarrow> (u, d)
      | None \<Rightarrow> (default_user uid, d\<lparr>users := upsertUser (default_user uid) (users d)\<rparr>))"

section \<open>Streak engine and completion\<close>

text \<open>
  \<open>dayjs(today).diff(dayjs(last), "day")\<close> on two local dates. The library takes the
  time elapsed between the two parsed instants, subtracts the change of the UTC offset
  between them, divides by the milliseconds of a day and drops the fraction
  (\<open>absFloor\<close>: towards zero).
\<close>

definition absFloor :: "real \<Rightarrow> int" where
  "absFloor n = (if n < 0 then js_ceil n else js_floor n)"

definition dayjs_diff_days :: "time_zone \<Rightarrow> int \<Rightarrow> int \<Rightarrow> int" where
  "dayjs_diff_days z tday lastDay =
     (let zoneDelta = js_mul (js_sub (of_int (utc_offset_min z lastDay))
                                     (of_int (utc_offset_min z tday))) 60000;
          diff = js_sub (of_int (day_start_ms z tday)) (of_int (day_start_ms z lastDay))
      in absFloor (js_div (js_sub diff zoneDelta) 86400000))"

definition applyStreakProgress :: "env \<Rightarrow> user_row \<Rightarrow> user_row" where
  "applyStreakProgress ev u =
     (let tday = today ev;
          cs = (case last_active_local_date u of
                  None \<Rightarrow> 1
                | Some lastDay \<Rightarrow>
                    (let diff = dayjs_diff_days (zone ev) tday lastDay
                     in if diff = 0 then current_streak u
                        else if diff = 1 then current_streak u + 1
                        else 1))
      in u\<lparr>current_streak := cs,
            longest_streak := max (longest_streak u) cs,
            last_active_local_date := Some tday\<rparr>)"

text \<open>
  The block both completion handlers run between the gate and the transaction: previous
  level, streak, multiplier, XP, level, avatar tier. A level that is \<open>NaN\<close> compares
  false, is bound as \<open>NULL\<close> and violates \<open>NOT NULL\<close>: the transaction throws and
  nothing is written (\<open>None\<close>).
\<close>

definition award :: "env \<Rightarrow> real \<Rightarrow> user_row \<Rightarrow> (real \<times> int \<times> user_row) option" where
  "award ev base_points u0 =
     (let prevLevel = level u0;
          u = applyStreakProgress ev u0;
          mult = streakMultiplier (current_streak u);
          gainedXP = js_round (js_mul base_points mult);
          total = num_add (total_xp u) gainedXP
      in case computeLevel total of
           None \<Rightarrow> None
         | Some lv \<Rightarrow>
             Some (mult, gainedXP,
                   u\<lparr>total_xp := total, level := lv,
                     avatar_tier := (if prevLevel < lv \<and> lv mod 5 = 0
                                     then avatar_tier u + 1 else avatar_tier u)\<rparr>))"

section \<open>Quest completion: POST /api/runs\<close>

record run_response =
  rr_questId :: string
  rr_gainedXP :: int
  rr_streakApplied :: int
  rr_progress :: user_row
  rr_basePoints :: int
  rr_multiplier :: real
  rr_leveledUp :: bool

text \<open>The cooldown gate: the seconds still to wait, if the request is blocked.\<close>

definition cooldown_wait :: "int \<Rightarrow> quest \<Rightarrow> run option \<Rightarrow> int option" where
  "cooldown_wait nowMs q lastRun =
     (if 0 < q_cooldown_sec q then
        (case lastRun of
           None \<Rightarrow> None
         | Some l \<Rightarrow>
             (let lastMs = run_created_at l
              in if nowMs - lastMs < q_cooldown_sec q * 1000
                 then Some (js_ceil (js_div
                        (of_int (q_cooldown_sec q * 1000 - (nowMs - lastMs))) 1000))
                 else None))
      else None)"

definition post_runs :: "env \<Rightarrow> string \<Rightarrow> string \<Rightarrow> db \<Rightarrow> (error + run_response) \<times> db" where
  "post_runs ev uid questId d0 =
     (let (u0, d) = ensure_user uid d0
      in case getQuest d questId of
           None \<Rightarrow> (Inl INVALID_INPUT, d)
         | Some q \<Rightarrow>
             (case cooldown_wait (now_ms ev) q (lastRunForQuest d (u_id u0) questId) of
                Some waitSec \<Rightarrow> (Inl (RATE_LIMITED waitSec), d)
              | None \<Rightarrow>
                  (case award ev (of_int (q_base_points q)) u0 of
                     None \<Rightarrow> (Inl STORAGE_FAILURE, d)
                   | Some (mult, gainedXP, u) \<Rightarrow>
                       (Inr \<lparr>rr_questId = questId, rr_gainedXP = gainedXP,
                             rr_streakApplied = current_streak u, rr_progress = u,
                             rr_basePoints = q_base_points q, rr_multiplier = mult,
                             rr_leveledUp = (level u0 < level u)\<rparr>,
                        d\<lparr>users := upsertUser u (users d),
                          runs := runs d @
                            [\<lparr>run_id = new_id ev, run_user_id = u_id u,
                              run_quest_id = questId, run_gained_xp = gainedXP,
                              run_streak_applied = current_streak u,
                              run_created_at = now_ms ev,
                              run_local_date = today ev\<rparr>]\<rparr>))))"

section \<open>Routines: POST /api/routines and POST /api/routines/:id/log\<close>

text \<open>
  A field of the JSON body. \<open>Number(v)\<close> is \<open>NaN\<close> (\<open>None\<close>) for \<open>undefined\<close>,
  0 for \<open>null\<close>, 0 or 1 for a boolean, and for a string what \<open>StringToNumber\<close> gives,
  which is a parameter here. Arrays and objects are left out.
\<close>

datatype jsval = Undefined | Null | Bool bool | Num real | Str string

definition js_Number :: "(string \<Rightarrow> real option) \<Rightarrow> jsval \<Rightarrow> real option" where
  "js_Number str_num v =
     (case v of
        Undefined \<Rightarrow> None
      | Null \<Rightarrow> Some 0
      | Bool b \<Rightarrow> Some (if b then 1 else 0)
      | Num x \<Rightarrow> Some x
      | Str s \<Rightarrow> str_num s)"

text \<open>\<open>Number(v) || dflt\<close>: the default replaces \<open>NaN\<close> and zero.\<close>

definition number_or :: "real option \<Rightarrow> real \<Rightarrow> real" where
  "number_or n dflt = (case n of None \<Rightarrow> dflt | Some x \<Rightarrow> if x = 0 then dflt else x)"

text \<open>The destructuring default applies to a field that is \<open>undefined\<close> only.\<close>

definition field_default :: "jsval \<Rightarrow> jsval \<Rightarrow> jsval" where
  "field_default v dflt = (if v = Undefined then dflt else v)"

definition post_routines ::
  "(string \<Rightarrow> real option) \<Rightarrow> env \<Rightarrow> string \<Rightarrow> string option \<Rightarrow> jsval \<Rightarrow> jsval \<Rightarrow> db
     \<Rightarrow> (error + routine) \<times> db" where
  "post_routines str_num ev uid title dailyTarget0 basePoints0 d0 =
     (let (u0, d) = ensure_user uid d0;
          dailyTarget = field_default dailyTarget0 (Num 1);
          basePoints = field_default basePoints0 (Num 6)
      in case title of
           None \<Rightarrow> (Inl INVALID_INPUT, d)
         | Some t \<Rightarrow>
             if t = [] then (Inl INVALID_INPUT, d)
             else
               (let row = \<lparr>r_id = new_id ev, r_user_id = uid, r_title = t,
                           r_base_points = number_or (js_Number str_num basePoints) 6,
                           r_daily_target = number_or (js_Number str_num dailyTarget) 1,
                           r_active = True\<rparr>
                in (Inr row, d\<lparr>routines := routines d @ [row]\<rparr>)))"

record log_response =
  lr_routineId :: string
  lr_gainedXP :: int
  lr_localDate :: int
  lr_progress :: user_row

definition post_routine_log ::
  "env \<Rightarrow> string \<Rightarrow> string \<Rightarrow> db \<Rightarrow> (error + log_response) \<times> db" where
  "post_routine_log ev uid rid d0 =
     (let (u0, d) = ensure_user uid d0
      in case getRoutineById d rid uid of
           None \<Rightarrow> (Inl NOT_FOUND, d)
         | Some rt \<Rightarrow>
             if r_daily_target rt \<le> of_int (countRoutineLogsToday d rid uid (today ev))
             then (Inl LIMIT_REACHED, d)
             else
               (case award ev (r_base_points rt) u0 of
                  None \<Rightarrow> (Inl STORAGE_FAILURE, d)
                | Some (mult, gainedXP, u) \<Rightarrow>
                    (Inr \<lparr>lr_routineId = rid, lr_gainedXP = gainedXP,
                          lr_localDate = today ev, lr_progress = u\<rparr>,
                     d\<lparr>users := upsertUser u (users d),
                       routine_logs := routine_logs d @
                         [\<lparr>rl_id = new_id ev, rl_routine_id = rid, rl_user_id = uid,
                           rl_gained_xp = gainedXP, rl_created_at = now_ms ev,
                           rl_local_date = today ev\<rparr>]\<rparr>)))"

section \<open>Weekly insights: GET /api/insights/weekly\<close>

record day_row =
  dr_date :: int
  dr_quests :: int
  dr_routineLogs :: int
  dr_xp :: int

datatype risk_band = Green | Amber | Red

record insights =
  in_start :: int
  in_end :: int
  in_series :: "day_row list"
  in_totalXP :: int
  in_totalQuests :: int
  in_totalRoutineLogs :: int
  in_dailyTargetTotal :: real
  in_daysMetTarget :: int
  in_completionRate :: int
  in_streakCurrent :: int
  in_streakLongest :: int
  in_riskBand :: risk_band
  in_avatarTier :: int
  in_avatarMood :: string

text \<open>
  The two \<open>GROUP BY local_date\<close> queries over the window: one row per date that occurs,
  with the number of rows of that date (and, for runs, the sum of their XP).
\<close>

definition runsByDay :: "db \<Rightarrow> string \<Rightarrow> int \<Rightarrow> int \<Rightarrow> (int \<times> int \<times> int) list" where
  "runsByDay d uid first_day last_day =
     (let rs = filter (\<lambda>r. run_user_id r = uid \<and> first_day \<le> run_local_date r
                             \<and> run_local_date r \<le> last_day) (runs d)
      in map (\<lambda>date. (date,
                       int (length (filter (\<lambda>r. run_local_date r = date) rs)),
                       sum_list (map run_gained_xp (filter (\<lambda>r. run_local_date r = date) rs))))
             (remdups (map run_local_date rs)))"

definition routineLogsByDay :: "db \<Rightarrow> string \<Rightarrow> int \<Rightarrow> int \<Rightarrow> (int \<times> int) list" where
  "routineLogsByDay d uid first_day last_day =
     (let ls = filter (\<lambda>l. rl_user_id l = uid \<and> first_day \<le> rl_local_date l
                             \<and> rl_local_date l \<le> last_day) (routine_logs d)
      in map (\<lambda>date. (date, int (length (filter (\<lambda>l. rl_local_date l = date) ls))))
             (remdups (map rl_local_date ls)))"

definition activeRoutines :: "db \<Rightarrow> string \<Rightarrow> routine list" where
  "activeRoutines d uid = filter (\<lambda>r. r_user_id r = uid \<and> r_active r) (routines d)"

definition window_days :: "int \<Rightarrow> int list" where
  "window_days tday = map (\<lambda>i. tday - i) [6, 5, 4, 3, 2, 1, 0]"

definition empty_day :: "int \<Rightarrow> day_row" where
  "empty_day date = \<lparr>dr_date = date, dr_quests = 0, dr_routineLogs = 0, dr_xp = 0\<rparr>"

definition put_runs :: "(int \<rightharpoonup> day_row) \<Rightarrow> int \<times> int \<times> int \<Rightarrow> (int \<rightharpoonup> day_row)" where
  "put_runs byDay r =
     (case r of (date, n, xp) \<Rightarrow>
        (case byDay date of
           None \<Rightarrow> byDay
         | Some row \<Rightarrow> byDay(date \<mapsto> row\<lparr>dr_quests := n, dr_xp := xp\<rparr>)))"

definition put_logs :: "(int \<rightharpoonup> day_row) \<Rightarrow> int \<times> int \<Rightarrow> (int \<rightharpoonup> day_row)" where
  "put_logs byDay r =
     (case r of (date, n) \<Rightarrow>
        (case byDay date of
           None \<Rightarrow> byDay
         | Some row \<Rightarrow> byDay(date \<mapsto> row\<lparr>dr_routineLogs := n\<rparr>)))"

definition completion_rate :: "real \<Rightarrow> int \<Rightarrow> int" where
  "completion_rate dailyTargetTotal daysMetTarget =
     (if 0 < dailyTargetTotal
      then js_round (js_mul (js_div (of_int daysMetTarget) 7) 100)
      else 0)"

definition risk_of :: "int \<Rightarrow> risk_band" where
  "risk_of completionRate =
     (if 70 \<le> completionRate then Green else if 40 \<le> completionRate then Amber else Red)"

definition insights_weekly :: "env \<Rightarrow> string \<Rightarrow> db \<Rightarrow> insights \<times> db" where
  "insights_weekly ev uid d0 =
     (let (u, d) = ensure_user uid d0;
          tday = today ev;
          start = tday - 6;
          days = window_days tday;
          byDay0 = foldl (\<lambda>m date. m(date \<mapsto> empty_day date)) Map.empty days;
          byDay1 = foldl put_runs byDay0 (runsByDay d uid start tday);
          byDay = foldl put_logs byDay1 (routineLogsByDay d uid start tday);
          series = List.map_filter byDay days;
          dailyTargetTotal =
            foldl (\<lambda>acc r. js_add acc (r_daily_target r)) 0 (activeRoutines d uid);
          daysMetTarget =
            int (length (filter (\<lambda>row. 0 < dailyTargetTotal
                                  \<and> dailyTargetTotal \<le> of_int (dr_routineLogs row)) series));
          completionRate = completion_rate dailyTargetTotal daysMetTarget;
          riskBand = risk_of completionRate
      in (\<lparr>in_start = start, in_end = tday, in_series = series,
           in_totalXP = sum_list (map dr_xp series),
           in_totalQuests = sum_list (map dr_quests series),
           in_totalRoutineLogs = sum_list (map dr_routineLogs series),
           in_dailyTargetTotal = dailyTargetTotal,
           in_daysMetTarget = daysMetTarget,
           in_completionRate = completionRate,
           in_streakCurrent = current_streak u,
           in_streakLongest = longest_streak u,
           in_riskBand = riskBand,
           in_avatarTier = avatar_tier u,
           in_avatarMood = (if riskBand = Green then ''happy''
                            else if riskBand = Amber then ''thoughtful'' else ''tired'')\<rparr>,
          d))"

section \<open>Sequences of completion requests\<close>

datatype request = PostRuns string string | PostRoutineLog string string

definition handle :: "env \<times> request \<Rightarrow> db \<Rightarrow> db" where
  "handle er d =
     (case er of
        (ev, PostRuns uid questId) \<Rightarrow> snd (post_runs ev uid questId d)
      | (ev, PostRoutineLog uid rid) \<Rightarrow> snd (post_routine_log ev uid rid d))"

definition exec :: "(env \<times> request) list \<Rightarrow> db \<Rightarrow> db" where
  "exec ers d = fold handle ers d"

definition streak_inv :: "db \<Rightarrow> bool" where
  "streak_inv d = list_all (\<lambda>u. current_streak u \<le> longest_streak u) (users d)"

text \<open>
  For the statement of the streak update: between the dates \<open>a\<close> and \<open>b\<close> the
  zone keeps whole days. The two parsed instants, corrected by the UTC offsets, are
  \<open>a - b\<close> days apart; they lie within \<open>4 * 10^15\<close> milliseconds of the epoch,
  and the offsets within a day.
\<close>

definition whole_days :: "time_zone \<Rightarrow> int \<Rightarrow> int \<Rightarrow> bool" where
  "whole_days z a b \<longleftrightarrow>
     day_start_ms z a - day_start_ms z b - (utc_offset_min z b - utc_offset_min z a) * 60000
       = (a - b) * 86400000
     \<and> \<bar>day_start_ms z a\<bar> \<le> 4 * 10 ^ 15 \<and> \<bar>day_start_ms z b\<bar> \<le> 4 * 10 ^ 15
     \<and> \<bar>utc_offset_min z a\<bar> \<le> 1440 \<and> \<bar>utc_offset_min z b\<bar> \<le> 1440"

text \<open>
  For the statement of the aggregator: the number of routine logs of a user on a date.
\<close>

definition logs_on :: "db \<Rightarrow> string \<Rightarrow> int \<Rightarrow> int" where
  "logs_on d uid date =
     int (length (filter (\<lambda>l. rl_user_id l = uid \<and> rl_local_date l = date) (routine_logs d)))"

section \<open>Concrete databases\<close>

text \<open>The catalog that \<open>db.js\<close> seeds, and the database before any request.\<close>

definition seed_quests :: "quest list" where
  "seed_quests =
     [\<lparr>q_id = ''q1'', q_base_points = 10, q_cooldown_sec = 0, q_active = True\<rparr>,
      \<lparr>q_id = ''q2'', q_base_points = 5, q_cooldown_sec = 3600, q_active = True\<rparr>,
      \<lparr>q_id = ''q3'', q_base_points = 12, q_cooldown_sec = 0, q_active = True\<rparr>,
      \<lparr>q_id = ''q4'', q_base_points = 15, q_cooldown_sec = 0, q_active = True\<rparr>]"

definition seeded_db :: db where
  "seeded_db = \<lparr>users = [], quests = seed_quests, runs = [], routines = [], routine_logs = []\<rparr>"

text \<open>A user on a three-day streak whose last completion was on day 100.\<close>

definition streak_user :: user_row where
  "streak_user =
     \<lparr>u_id = ''u'', total_xp = 40, level = 4, current_streak = 3, longest_streak = 5,
      last_active_local_date = Some 100, avatar_tier = 0\<rparr>"

definition routine_of :: "string \<Rightarrow> real \<Rightarrow> real \<Rightarrow> routine" where
  "routine_of rid base_points daily_target =
     \<lparr>r_id = rid, r_user_id = ''u'', r_title = ''habit'', r_base_points = base_points,
      r_daily_target = daily_target, r_active = True\<rparr>"

text \<open>
  A server on UTC: every date opens at its midnight, a whole number of days from the epoch.
\<close>

definition utc_zone :: time_zone where
  "utc_zone = \<lparr>day_start_ms = (\<lambda>d. d * 86400000), utc_offset_min = (\<lambda>d. 0)\<rparr>"

definition at_time :: "int \<Rightarrow> int \<Rightarrow> string \<Rightarrow> env" where
  "at_time ms day ident = \<lparr>now_ms = ms, today = day, new_id = ident, zone = utc_zone\<rparr>"

text \<open>
  A server in Havana in March 2025. Summer time began on 2025-03-09 (day 20156) at local
  midnight: the clock went from 00:00 (UTC-5) to 01:00 (UTC-4), so that date opens at 01:00
  local time, 05:00 UTC, and is 23 hours long. The dates before it open at 05:00 UTC,
  the dates after it at 04:00 UTC.
\<close>

definition havana_zone :: time_zone where
  "havana_zone =
     \<lparr>day_start_ms = (\<lambda>d. if d \<le> 20156 then d * 86400000 + 5 * 3600000
                             else d * 86400000 + 4 * 3600000),
      utc_offset_min = (\<lambda>d. if d < 20156 then - 300 else - 240)\<rparr>"

definition havana_time :: "int \<Rightarrow> int \<Rightarrow> string \<Rightarrow> env" where
  "havana_time ms day ident = \<lparr>now_ms = ms, today = day, new_id = ident, zone = havana_zone\<rparr>"

text \<open>A user on a three-day streak whose last completion was on 2025-03-09.\<close>

definition havana_user :: user_row where
  "havana_user =
     \<lparr>u_id = ''u'', total_xp = 40, level = 4, current_streak = 3, longest_streak = 3,
      last_active_local_date = Some 20156, avatar_tier = 0\<rparr>"

text \<open>
  The database after user \<open>u\<close> has completed the quest \<open>q2\<close> (5 base points, a cooldown
  of 3600 seconds) at time 0 on day 100 as a first completion.
\<close>

definition water_run :: run where
  "water_run =
     \<lparr>run_id = ''a'', run_user_id = ''u'', run_quest_id = ''q2'', run_gained_xp = 5,
      run_streak_applied = 1, run_created_at = 0, run_local_date = 100\<rparr>"

definition watered_db :: db where
  "watered_db =
     seeded_db\<lparr>users := [\<lparr>u_id = ''u'', total_xp = 5, level = 2, current_streak = 1,
                            longest_streak = 1, last_active_local_date = Some 100,
                            avatar_tier = 0\<rparr>],
               runs := [water_run]\<rparr>"






text \<open>
  A routine with a daily target of 1 and one log of user \<open>u\<close> on each of the given days.
\<close>

definition day_log :: "int \<Rightarrow> routine_log" where
  "day_log date =
     \<lparr>rl_id = ''l'', rl_routine_id = ''r1'', rl_user_id = ''u'', rl_gained_xp = 6,
      rl_created_at = 0, rl_local_date = date\<rparr>"

definition week_db :: "int list \<Rightarrow> db" where
  "week_db dates =
     seeded_db\<lparr>routines := [routine_of ''r1'' 6 1], routine_logs := map day_log dates\<rparr>"

section \<open>Properties of the rounding\<close>

lemma pow2_powi: "pow2 e = 2 powi e"
  by (simp add: pow2_def power_int_def field_simps power_inverse)

lemma pow2_pos: "0 < pow2 e"
  by (simp add: pow2_powi)

lemma pow2_mono: "a \<le> b \<Longrightarrow> pow2 a \<le> pow2 b"
  by (simp add: pow2_powi power_int_increasing)

lemma pow2_add: "pow2 (a + b) = pow2 a * pow2 b"
  by (simp add: pow2_powi power_int_add)

lemma ilog2_bounds:
  assumes "0 < x"
  shows "pow2 (ilog2 x) \<le> x \<and> x < pow2 (ilog2 x + 1)"
proof (cases "1 \<le> x")
  case True
  define n where "n = nat \<lfloor>x\<rfloor>"
  have fx: "1 \<le> \<lfloor>x\<rfloor>" using True by simp
  then have rn: "real n = of_int \<lfloor>x\<rfloor>" by (simp add: n_def)
  have n: "0 < n" "real n \<le> x" "x < real n + 1"
    using fx floor_correct[of x] by (simp_all add: rn) (simp add: n_def)
  define L where "L = floorlog 2 n"
  from floorlog_bounds[of n 2] n(1) have b: "2 ^ (L - 1) \<le> n" "n < 2 ^ L"
    by (auto simp: L_def)
  have Lpos: "0 < L" using n(1) by (simp add: L_def floorlog_def)
  have e1: "ilog2 x = int L - 1" using True by (simp add: ilog2_def n_def L_def)
  have e2: "pow2 (ilog2 x) = 2 ^ (L - 1)"
    unfolding e1 using Lpos by (simp add: pow2_def nat_diff_distrib')
  have e3: "pow2 (ilog2 x + 1) = 2 ^ L" unfolding e1 by (simp add: pow2_def)
  have r1: "(2::real) ^ (L - 1) \<le> real n"
    using b(1) by (metis of_nat_le_iff of_nat_numeral of_nat_power)
  have r2: "real n + 1 \<le> 2 ^ L"
  proof -
    have "n + 1 \<le> 2 ^ L" using b(2) by simp
    then have "real (n + 1) \<le> real (2 ^ L)" by (rule iffD2[OF of_nat_le_iff])
    then show ?thesis by simp
  qed
  show ?thesis unfolding e2 e3 using r1 r2 n(2,3) by linarith
next
  case False
  define y where "y = 1 / x"
  have y: "1 < y" using False assms by (simp add: y_def)
  define m where "m = nat (\<lceil>y\<rceil> - 1)"
  have cy: "2 \<le> \<lceil>y\<rceil>" using y by linarith
  then have rm: "real m = of_int \<lceil>y\<rceil> - 1" by (simp add: m_def)
  have m: "0 < m" "real m < y" "y \<le> real m + 1"
    using cy ceiling_correct[of y] by (simp_all add: rm) (simp add: m_def)
  define L where "L = floorlog 2 m"
  from floorlog_bounds[of m 2] m(1) have b: "2 ^ (L - 1) \<le> m" "m < 2 ^ L"
    by (auto simp: L_def)
  have Lpos: "0 < L" using m(1) by (simp add: L_def floorlog_def)
  have il: "ilog2 x = - int L" using False by (simp add: ilog2_def m_def L_def y_def)
  have p1: "pow2 (- int L) = 1 / 2 ^ L" using Lpos by (simp add: pow2_def)
  have p2: "pow2 (- int L + 1) = 1 / 2 ^ (L - 1)"
  proof (cases "L = 1")
    case True then show ?thesis by (simp add: pow2_def)
  next
    case False
    then have "- int L + 1 < 0" using Lpos by simp
    moreover have "nat (- (- int L + 1)) = L - 1" using Lpos by simp
    ultimately show ?thesis by (simp add: pow2_def)
  qed
  have r1: "(2::real) ^ (L - 1) \<le> real m"
    using b(1) by (metis of_nat_le_iff of_nat_numeral of_nat_power)
  have r2: "real m + 1 \<le> 2 ^ L"
  proof -
    have "m + 1 \<le> 2 ^ L" using b(2) by simp
    then have "real (m + 1) \<le> real (2 ^ L)" by (rule iffD2[OF of_nat_le_iff])
    then show ?thesis by simp
  qed
  have xy: "x = 1 / y" using assms by (simp add: y_def)
  have "y \<le> 2 ^ L" using m r2 by linarith
  then have lo: "1 / 2 ^ L \<le> x"
    unfolding xy using y by (simp add: field_simps)
  have "2 ^ (L - 1) < y" using m r1 by linarith
  then have hi: "x < 1 / 2 ^ (L - 1)"
    unfolding xy using y by (simp add: field_simps)
  show ?thesis unfolding il p1 p2 using lo hi by simp
qed

lemma ilog2_unique:
  assumes "pow2 e \<le> x" "x < pow2 (e + 1)"
  shows "ilog2 x = e"
proof -
  have x: "0 < x" using assms(1) pow2_pos[of e] by linarith
  note b = ilog2_bounds[OF x]
  have "\<not> ilog2 x < e"
  proof
    assume "ilog2 x < e"
    then have "pow2 (ilog2 x + 1) \<le> pow2 e" by (intro pow2_mono) simp
    with b assms show False by linarith
  qed
  moreover have "\<not> e < ilog2 x"
  proof
    assume "e < ilog2 x"
    then have "pow2 (e + 1) \<le> pow2 (ilog2 x)" by (intro pow2_mono) simp
    with b assms show False by linarith
  qed
  ultimately show ?thesis by linarith
qed

lemma ilog2_mono:
  assumes "0 < x" "x \<le> y"
  shows "ilog2 x \<le> ilog2 y"
proof (rule ccontr)
  assume "\<not> ilog2 x \<le> ilog2 y"
  then have "pow2 (ilog2 y + 1) \<le> pow2 (ilog2 x)" by (intro pow2_mono) simp
  moreover from assms have "0 < y" by simp
  ultimately show False
    using ilog2_bounds[OF assms(1)] ilog2_bounds[OF \<open>0 < y\<close>] assms(2) by linarith
qed

lemma round_half_even_of_int: "round_half_even (of_int n) = n"
  by (simp add: round_half_even_def)

lemma round_half_even_range:
  "\<lfloor>x\<rfloor> \<le> round_half_even x \<and> round_half_even x \<le> \<lfloor>x\<rfloor> + 1"
  by (simp add: round_half_even_def Let_def)

lemma round_half_even_mono:
  assumes "x \<le> y"
  shows "round_half_even x \<le> round_half_even y"
proof (cases "\<lfloor>x\<rfloor> = \<lfloor>y\<rfloor>")
  case True
  then show ?thesis using assms by (auto simp: round_half_even_def Let_def)
next
  case False
  then have "\<lfloor>x\<rfloor> + 1 \<le> \<lfloor>y\<rfloor>" using floor_mono[OF assms] by linarith
  then show ?thesis
    using round_half_even_range[of x] round_half_even_range[of y] by linarith
qed

lemma round_to_grid_mono: "x \<le> y \<Longrightarrow> round_to_grid e x \<le> round_to_grid e y"
  unfolding round_to_grid_def
  by (intro mult_right_mono round_half_even_mono divide_right_mono iffD2[OF of_int_le_iff])
    (simp_all add: less_imp_le[OF pow2_pos])

lemma round_to_grid_fix: "round_to_grid e (of_int k * pow2 e) = of_int k * pow2 e"
  using pow2_pos[of e] by (simp add: round_to_grid_def round_half_even_of_int)

lemma pow2_multiple:
  assumes "b \<le> a"
  shows "pow2 a = of_int (2 ^ nat (a - b)) * pow2 b"
proof -
  have "pow2 a = pow2 ((a - b) + b)" by simp
  also have "\<dots> = pow2 (a - b) * pow2 b" by (rule pow2_add)
  also have "pow2 (a - b) = of_int (2 ^ nat (a - b))" using assms by (simp add: pow2_def)
  finally show ?thesis .
qed

lemma round_to_grid_pow2: "b \<le> a \<Longrightarrow> round_to_grid b (pow2 a) = pow2 a"
  using round_to_grid_fix[of b "2 ^ nat (a - b)"] pow2_multiple[of b a] by simp

lemma fl_nonneg: "0 \<le> x \<Longrightarrow> 0 \<le> fl x"
  using round_to_grid_mono[of 0 x "ulp_exp x"] round_to_grid_fix[of "ulp_exp x" 0]
  by (auto simp: fl_def)

lemma fl_mono:
  assumes "0 \<le> x" "x \<le> y"
  shows "fl x \<le> fl y"
proof (cases "x = 0")
  case True
  then show ?thesis using fl_nonneg[of y] assms by (simp add: fl_def)
next
  case False
  then have x: "0 < x" and y: "0 < y" using assms by auto
  have le: "ulp_exp x \<le> ulp_exp y"
    using ilog2_mono[OF x assms(2)] x y by (simp add: ulp_exp_def)
  show ?thesis
  proof (cases "ulp_exp x = ulp_exp y")
    case True
    then show ?thesis using round_to_grid_mono[OF assms(2)] x y by (simp add: fl_def)
  next
    case False
    with le have lt: "ulp_exp x < ulp_exp y" by simp
    define a where "a = ilog2 y"
    have ey: "ulp_exp y = a - 52" and "ilog2 x + 1 \<le> a"
      using lt x y by (auto simp: ulp_exp_def a_def max_def split: if_splits)
    then have "pow2 (ilog2 x + 1) \<le> pow2 a" by (intro pow2_mono)
    then have xa: "x \<le> pow2 a" using ilog2_bounds[OF x] by linarith
    have ay: "pow2 a \<le> y" using ilog2_bounds[OF y] by (simp add: a_def)
    have "fl x = round_to_grid (ulp_exp x) x" using x by (simp add: fl_def)
    also have "\<dots> \<le> round_to_grid (ulp_exp x) (pow2 a)" by (rule round_to_grid_mono[OF xa])
    also have "\<dots> = pow2 a" using lt ey by (intro round_to_grid_pow2) simp
    also have "\<dots> = round_to_grid (ulp_exp y) (pow2 a)"
      using ey by (intro round_to_grid_pow2[symmetric]) simp
    also have "\<dots> \<le> round_to_grid (ulp_exp y) y" by (rule round_to_grid_mono[OF ay])
    also have "\<dots> = fl y" using y by (simp add: fl_def)
    finally show ?thesis .
  qed
qed

lemma ulp_exp_le:
  assumes "- 1074 \<le> e" "x \<noteq> 0" "\<bar>x\<bar> < pow2 (e + 53)"
  shows "ulp_exp x \<le> e"
proof -
  have ax: "0 < \<bar>x\<bar>" using assms(2) by simp
  have "\<not> e + 53 \<le> ilog2 \<bar>x\<bar>"
  proof
    assume "e + 53 \<le> ilog2 \<bar>x\<bar>"
    then have "pow2 (e + 53) \<le> pow2 (ilog2 \<bar>x\<bar>)" by (rule pow2_mono)
    with ilog2_bounds[OF ax] assms(3) show False by linarith
  qed
  then show ?thesis using assms(1) by (simp add: ulp_exp_def)
qed

lemma fl_grid:
  assumes "ulp_exp x \<le> e" "x = of_int k * pow2 e"
  shows "fl x = x"
proof (cases "x = 0")
  case True then show ?thesis by (simp add: fl_def)
next
  case False
  define u where "u = ulp_exp x"
  have "x = of_int (k * 2 ^ nat (e - u)) * pow2 u"
    using pow2_multiple[of u e] assms by (simp add: u_def)
  then have "round_to_grid u x = x" using round_to_grid_fix[of u "k * 2 ^ nat (e - u)"] by simp
  then show ?thesis using False by (simp add: fl_def u_def)
qed

lemma fl_representable:
  assumes "- 1074 \<le> e" "\<bar>k\<bar> < 2 ^ 53"
  shows "fl (of_int k * pow2 e) = of_int k * pow2 e"
proof (cases "k = 0")
  case True then show ?thesis by (simp add: fl_def)
next
  case False
  have "\<bar>of_int k * pow2 e\<bar> = of_int \<bar>k\<bar> * pow2 e"
    using pow2_pos[of e] by (simp add: abs_mult)
  also have "\<dots> < 2 ^ 53 * pow2 e"
  proof -
    have "(of_int \<bar>k\<bar> :: real) < of_int (2 ^ 53)" using assms(2) by (rule iffD2[OF of_int_less_iff])
    then show ?thesis using pow2_pos[of e] by simp
  qed
  also have "\<dots> = pow2 (e + 53)" using pow2_add[of 53 e] by (simp add: pow2_def add.commute)
  finally have "\<bar>of_int k * pow2 e\<bar> < pow2 (e + 53)" .
  moreover have "of_int k * pow2 e \<noteq> 0" using False pow2_pos[of e] by simp
  ultimately have "ulp_exp (of_int k * pow2 e) \<le> e" using assms(1) by (intro ulp_exp_le)
  then show ?thesis by (rule fl_grid) (rule refl)
qed

lemma fl_of_int: "\<bar>k\<bar> < 2 ^ 53 \<Longrightarrow> fl (of_int k) = of_int k"
  using fl_representable[of 0 k] by (simp add: pow2_def)

lemma fl_idem:
  assumes "0 \<le> y"
  shows "fl (fl y) = fl y"
proof (cases "y = 0")
  case True then show ?thesis by (simp add: fl_def)
next
  case False
  then have y: "0 < y" using assms by simp
  define u where "u = ulp_exp y"
  define m where "m = round_half_even (y / pow2 u)"
  have fy: "fl y = of_int m * pow2 u" using y by (simp add: fl_def round_to_grid_def u_def m_def)
  have u: "- 1074 \<le> u" "ilog2 y - 52 \<le> u" using y by (simp_all add: u_def ulp_exp_def)
  have "y < pow2 (ilog2 y + 1)" using ilog2_bounds[OF y] by simp
  also have "pow2 (ilog2 y + 1) \<le> pow2 (u + 53)" using u by (intro pow2_mono) simp
  also have "\<dots> = 2 ^ 53 * pow2 u" using pow2_add[of 53 u] by (simp add: pow2_def add.commute)
  finally have "y / pow2 u \<le> of_int (2 ^ 53)" using pow2_pos[of u] by (simp add: field_simps)
  from round_half_even_mono[OF this] have m_le: "m \<le> 2 ^ 53"
    unfolding round_half_even_of_int m_def .
  have "0 \<le> y / pow2 u" using y pow2_pos[of u] by simp
  then have "(of_int 0 :: real) \<le> y / pow2 u" by simp
  from round_half_even_mono[OF this] have m_ge: "0 \<le> m"
    unfolding round_half_even_of_int m_def .
  show ?thesis
  proof (cases "m = 2 ^ 53")
    case True
    have "fl y = of_int (2 ^ 52) * pow2 (u + 1)"
      unfolding fy True using pow2_add[of 1 u] by (simp add: pow2_def add.commute)
    moreover have "fl (of_int (2 ^ 52) * pow2 (u + 1)) = of_int (2 ^ 52) * pow2 (u + 1)"
      using u by (intro fl_representable) simp_all
    ultimately show ?thesis by simp
  next
    case False
    then have "\<bar>m\<bar> < 2 ^ 53" using m_le m_ge by simp
    then show ?thesis unfolding fy using u by (intro fl_representable) simp_all
  qed
qed

lemma js_add_nonneg: "0 \<le> x \<Longrightarrow> 0 \<le> y \<Longrightarrow> 0 \<le> js_add x y"
  by (simp add: js_add_def fl_nonneg)

lemma js_mul_nonneg: "0 \<le> x \<Longrightarrow> 0 \<le> y \<Longrightarrow> 0 \<le> js_mul x y"
  by (simp add: js_mul_def fl_nonneg)

lemma js_div_nonneg: "0 \<le> x \<Longrightarrow> 0 \<le> y \<Longrightarrow> 0 \<le> js_div x y"
  by (simp add: js_div_def fl_nonneg)

lemma floor_half_up:
  "(if y - of_int \<lfloor>y\<rfloor> < 1 / 2 then \<lfloor>y\<rfloor> else \<lfloor>y\<rfloor> + 1) = \<lfloor>y + 1 / 2 :: real\<rfloor>"
  by (auto simp: not_less) linarith+

text \<open>On a non-negative Number, \<open>toFixed(2)\<close> read back is the specification's rounding.\<close>

lemma parseFloat_toFixed2: "0 \<le> x \<Longrightarrow> parseFloat (toFixed2 x) = round2 x"
  using floor_half_up[of "x * 100"]
  by (simp add: parseFloat_def toFixed2_def round2_def Let_def)

text \<open>
  The relative error of one rounding is at most \<open>2^-53\<close>. With it, the multiplier of a
  streak up to \<open>10^9\<close> is the Number nearest to the exact two-decimal value.
\<close>

lemma round_half_even_error: "\<bar>of_int (round_half_even x) - x\<bar> \<le> 1 / 2"
  by (auto simp: round_half_even_def Let_def)

lemma fl_error:
  assumes "pow2 (- 1022) \<le> x"
  shows "\<bar>fl x - x\<bar> \<le> x / 2 ^ 53"
proof -
  have x: "0 < x" using assms pow2_pos[of "- 1022"] by linarith
  have "ilog2 (pow2 (- 1022)) = - 1022"
    by (rule ilog2_unique) (simp_all add: pow2_def)
  with ilog2_mono[OF pow2_pos assms] have "- 1022 \<le> ilog2 x" by simp
  then have u: "ulp_exp x = ilog2 x - 52" using x by (simp add: ulp_exp_def)
  define u where "u = ilog2 x - 52"
  have p: "0 < pow2 u" by (rule pow2_pos)
  have "fl x - x = (of_int (round_half_even (x / pow2 u)) - x / pow2 u) * pow2 u"
    using x p by (simp add: fl_def round_to_grid_def u u_def field_simps)
  then have "\<bar>fl x - x\<bar> = \<bar>of_int (round_half_even (x / pow2 u)) - x / pow2 u\<bar> * pow2 u"
    using p by (simp add: abs_mult)
  also have "\<dots> \<le> 1 / 2 * pow2 u"
    using round_half_even_error[of "x / pow2 u"] p by (intro mult_right_mono) simp_all
  also have "1 / 2 * pow2 u = pow2 (ilog2 x) / 2 ^ 53"
  proof -
    have p52: "pow2 (- 52) = 1 / 2 ^ 52" by (simp add: pow2_def)
    have "pow2 u = pow2 (- 52) * pow2 (ilog2 x)"
      using pow2_add[of "- 52" "ilog2 x"] by (simp add: u_def add.commute)
    then show ?thesis by (simp add: p52)
  qed
  also have "\<dots> \<le> x / 2 ^ 53"
    using ilog2_bounds[OF x] by (simp add: divide_right_mono)
  finally show ?thesis .
qed

lemma js_floor_div_7:
  assumes "0 \<le> s" "s \<le> 2 ^ 49"
  shows "js_floor (js_div (of_int s) 7) = s div 7"
proof -
  define k where "k = s div 7"
  have k: "0 \<le> k" "k \<le> 2 ^ 49" "7 * k \<le> s" "s \<le> 7 * k + 6"
    using assms by (simp_all add: k_def)
  define r :: real where "r = of_int (8 * k + 7) * pow2 (- 3)"
  have fr: "fl r = r" unfolding r_def using k by (intro fl_representable) simp_all
  have r_eq: "r = of_int k + 7 / 8" by (simp add: r_def pow2_def field_simps)
  have fk: "fl (of_int k) = of_int k" using k by (intro fl_of_int) simp
  have "(of_int (7 * k) :: real) \<le> of_int s" using k(3) by (rule iffD2[OF of_int_le_iff])
  then have lo: "(of_int k :: real) \<le> of_int s / 7" by simp
  have "(of_int s :: real) \<le> of_int (7 * k + 6)" using k(4) by (rule iffD2[OF of_int_le_iff])
  then have hi: "of_int s / 7 \<le> r" unfolding r_eq by simp
  have "fl (of_int k) \<le> fl (of_int s / 7)" using k(1) lo by (intro fl_mono) simp_all
  then have a: "of_int k \<le> fl (of_int s / 7)" by (simp only: fk)
  have "fl (of_int s / 7) \<le> fl r" using assms(1) hi by (intro fl_mono) simp_all
  then have "fl (of_int s / 7) \<le> r" by (simp only: fr)
  then have b: "fl (of_int s / 7) < of_int k + 1" by (simp add: r_eq)
  have "\<lfloor>fl (of_int s / 7)\<rfloor> = k" using a b by (intro floor_unique) simp_all
  then show ?thesis by (simp add: js_floor_def js_div_def k_def)
qed

lemma tenth_bounds: "1 / 10 \<le> fl (1 / 10)" "fl (1 / 10) \<le> 1 / 10 + 1 / 10 ^ 17"
  by code_simp+

lemma twentieth_bounds: "1 / 20 \<le> fl (5 / 100)" "fl (5 / 100) \<le> 1 / 20 + 1 / 10 ^ 17"
  by code_simp+

lemma fl_half: "fl (1 / 2) = 1 / 2"
  by code_simp

lemma fl_error':
  assumes "x = 0 \<or> 1 / 1000 \<le> x"
  shows "x - x / 10 ^ 15 \<le> fl x" and "fl x \<le> x + x / 10 ^ 15"
proof -
  have "\<bar>fl x - x\<bar> \<le> x / 10 ^ 15"
  proof (cases "x = 0")
    case True
    then show ?thesis by (simp add: fl_def)
  next
    case False
    then have x: "1 / 1000 \<le> x" using assms by simp
    have "pow2 (- 1022) \<le> pow2 (- 10)" by (rule pow2_mono) simp
    also have "pow2 (- 10) \<le> 1 / 1000" by (simp add: pow2_def)
    finally have "pow2 (- 1022) \<le> x" using x by linarith
    then have "\<bar>fl x - x\<bar> \<le> x / 2 ^ 53" by (rule fl_error)
    also have "x / 2 ^ 53 \<le> x / 10 ^ 15" using x by (intro divide_left_mono) simp_all
    finally show ?thesis .
  qed
  then show "x - x / 10 ^ 15 \<le> fl x" and "fl x \<le> x + x / 10 ^ 15" by linarith+
qed

lemma streakMultiplier_round2:
  "streakMultiplier streak =
     (if streak < 1 then 1
      else round2 (js_add (js_add 1 (min (js_mul (fl (5 / 100)) (of_int streak)) (fl (5 / 10))))
                          (js_mul (of_int (js_floor (js_div (of_int streak) 7))) (fl (1 / 10)))))"
proof (cases "streak < 1")
  case True
  then show ?thesis by (simp add: streakMultiplier_def)
next
  case False
  then have s: "0 \<le> (of_int streak :: real)" by simp
  have p: "0 \<le> min (js_mul (fl (5 / 100)) (of_int streak)) (fl (5 / 10))"
    using s by (simp add: js_mul_nonneg fl_nonneg)
  have "0 \<le> js_div (of_int streak) 7" using s by (simp add: js_div_nonneg)
  then have "0 \<le> (of_int (js_floor (js_div (of_int streak) 7)) :: real)"
    by (simp add: js_floor_def)
  then have b: "0 \<le> js_mul (of_int (js_floor (js_div (of_int streak) 7))) (fl (1 / 10))"
    by (simp add: js_mul_nonneg fl_nonneg)
  have "0 \<le> js_add (js_add 1 (min (js_mul (fl (5 / 100)) (of_int streak)) (fl (5 / 10))))
                          (js_mul (of_int (js_floor (js_div (of_int streak) 7))) (fl (1 / 10)))"
    using p b by (intro js_add_nonneg) simp_all
  from parseFloat_toFixed2[OF this] False show ?thesis
    by (simp add: streakMultiplier_def Let_def)
qed

lemma streakMultiplier_closed:
  assumes s: "1 \<le> s" "s \<le> 10 ^ 9"
  shows "streakMultiplier s = fl (of_int (100 + min (5 * s) 50 + 10 * (s div 7)) / 100)"
proof -
  define sr :: real where "sr = of_int s"
  define k where "k = s div 7"
  define kr :: real where "kr = of_int k"
  have sr: "1 \<le> sr" "sr \<le> 10 ^ 9"
  proof -
    have "(of_int 1 :: real) \<le> of_int s" using s(1) by (rule iffD2[OF of_int_le_iff])
    then show "1 \<le> sr" by (simp add: sr_def)
    have "(of_int s :: real) \<le> of_int (10 ^ 9)" using s(2) by (rule iffD2[OF of_int_le_iff])
    then show "sr \<le> 10 ^ 9" by (simp add: sr_def)
  qed
  have k: "0 \<le> k" "7 * k \<le> s" using s by (simp_all add: k_def)
  have kr: "0 \<le> kr" "7 * kr \<le> sr"
  proof -
    show "0 \<le> kr" using k(1) by (simp add: kr_def)
    have "(of_int (7 * k) :: real) \<le> of_int s" using k(2) by (rule iffD2[OF of_int_le_iff])
    then show "7 * kr \<le> sr" by (simp add: kr_def sr_def)
  qed
  have fd: "js_floor (js_div (of_int s) 7) = k"
    unfolding k_def using s by (intro js_floor_div_7) simp_all
  define x1 where "x1 = fl (5 / 100) * sr"
  define a where "a = fl x1"
  have x1: "sr / 20 \<le> x1" "x1 \<le> sr / 20 + sr / 10 ^ 17"
    using twentieth_bounds sr(1)
    by (simp_all add: x1_def field_simps mult_left_mono) 
  have "x1 = 0 \<or> 1 / 1000 \<le> x1" using x1(1) sr(1) by simp
  from fl_error'[OF this] have a: "x1 - x1 / 10 ^ 15 \<le> a" "a \<le> x1 + x1 / 10 ^ 15"
    by (simp_all add: a_def)
  have a': "sr / 20 - 1 / 10 ^ 7 \<le> a" "a \<le> sr / 20 + 1 / 10 ^ 7"
    using a x1 sr by simp_all
  define P where "P = min a (1 / 2)"
  define pm where "pm = min (sr / 20) (1 / 2)"
  have P12: "pm - 1 / 10 ^ 7 \<le> P" "P \<le> pm + 1 / 10 ^ 7"
    using a' sr unfolding P_def pm_def by (simp_all add: min_def)
  have "0 \<le> a" using a'(1) sr(1) by simp
  then have P34: "0 \<le> P" "P \<le> 1 / 2" by (simp_all add: P_def)
  note P = P12 P34
  define S1 where "S1 = fl (1 + P)"
  have "1 + P = 0 \<or> 1 / 1000 \<le> 1 + P" using P(3) by simp
  from fl_error'[OF this]
  have "1 + P - (1 + P) / 10 ^ 15 \<le> S1" "S1 \<le> 1 + P + (1 + P) / 10 ^ 15"
    by (simp_all add: S1_def)
  then have S1: "1 + P - 1 / 10 ^ 7 \<le> S1" "S1 \<le> 1 + P + 1 / 10 ^ 7"
    using P(3,4) by (simp_all add: field_simps)
  define x2 where "x2 = kr * fl (1 / 10)"
  define B where "B = fl x2"
  have x2: "kr / 10 \<le> x2" "x2 \<le> kr / 10 + kr / 10 ^ 17"
    using mult_left_mono[OF tenth_bounds(1) kr(1)] mult_left_mono[OF tenth_bounds(2) kr(1)]
    by (simp_all add: x2_def field_simps)
  have "x2 = 0 \<or> 1 / 1000 \<le> x2"
  proof (cases "k = 0")
    case True
    then show ?thesis by (simp add: x2_def kr_def)
  next
    case False
    then have "1 \<le> k" using k(1) by simp
    then have "(of_int 1 :: real) \<le> of_int k" by (rule iffD2[OF of_int_le_iff])
    then have "1 \<le> kr" by (simp add: kr_def)
    then show ?thesis using x2(1) by simp
  qed
  from fl_error'[OF this] have "x2 - x2 / 10 ^ 15 \<le> B" "B \<le> x2 + x2 / 10 ^ 15"
    by (simp_all add: B_def)
  then have B: "kr / 10 - 1 / 10 ^ 7 \<le> B" "B \<le> kr / 10 + 1 / 10 ^ 7"
    using x2 kr sr by (simp_all add: field_simps)
  define S where "S = fl (S1 + B)"
  have z: "1 / 1000 \<le> S1 + B" "S1 + B \<le> 10 ^ 9" using S1 B P kr sr by (simp_all add: field_simps)
  then have "S1 + B = 0 \<or> 1 / 1000 \<le> S1 + B" by simp
  from fl_error'[OF this]
  have "S1 + B - (S1 + B) / 10 ^ 15 \<le> S" "S \<le> S1 + B + (S1 + B) / 10 ^ 15"
    by (simp_all add: S_def)
  then have S: "S1 + B - 1 / 10 ^ 6 \<le> S" "S \<le> S1 + B + 1 / 10 ^ 6"
    using z by (simp_all add: field_simps)
  define V where "V = 1 + pm + kr / 10"
  have close: "V - 1 / 10 ^ 5 \<le> S" "S \<le> V + 1 / 10 ^ 5"
    using S S1 B P unfolding V_def by (simp_all add: field_simps)
  define N where "N = 100 + min (5 * s) 50 + 10 * k"
  have NV: "of_int N / 100 = V"
    by (simp add: N_def V_def pm_def sr_def kr_def min_def field_simps)
  have "\<lfloor>S * 100 + 1 / 2\<rfloor> = N"
  proof (rule floor_unique)
    show "of_int N \<le> S * 100 + 1 / 2" using close(1) NV by (simp add: field_simps)
    show "S * 100 + 1 / 2 < of_int N + 1" using close(2) NV by (simp add: field_simps)
  qed
  then have r2: "round2 S = fl (of_int N / 100)" by (simp add: round2_def)
  have "streakMultiplier s = round2 S"
    using s(1) unfolding streakMultiplier_round2
    by (simp add: S_def S1_def B_def x2_def P_def a_def x1_def sr_def kr_def fd
        js_add_def js_mul_def fl_half)
  then show ?thesis using r2 by (simp add: N_def k_def)
qed

text \<open>
  Integer-valued Numbers: rounding keeps an integer an integer, and the sum is exact below
  \<open>2^53\<close>. At \<open>2^53 + 11\<close>, half-way between two Numbers, it goes to the even
  mantissa.
\<close>

lemma ilog2_ge:
  assumes "pow2 e \<le> x"
  shows "e \<le> ilog2 x"
proof -
  have "ilog2 (pow2 e) = e" by (rule ilog2_unique) (simp_all add: pow2_powi power_int_add)
  then show ?thesis using ilog2_mono[OF pow2_pos assms] by simp
qed

lemma fl_int_integral: "\<exists>n::int. fl (of_int k) = of_int n"
proof (cases "\<bar>k\<bar> < 2 ^ 53")
  case True
  then show ?thesis using fl_of_int[of k] by blast
next
  case False
  define x :: real where "x = of_int k"
  have "(of_int (2 ^ 53) :: real) \<le> of_int \<bar>k\<bar>" using False by (intro iffD2[OF of_int_le_iff]) simp
  then have big: "pow2 53 \<le> \<bar>x\<bar>" by (simp add: x_def pow2_def)
  then have x0: "x \<noteq> 0" using pow2_pos[of 53] by auto
  define u where "u = ulp_exp x"
  have "53 \<le> ilog2 \<bar>x\<bar>" using big by (rule ilog2_ge)
  then have u1: "0 \<le> u" by (simp add: u_def ulp_exp_def)
  have "fl x = of_int (round_half_even (x / pow2 u)) * pow2 u"
    using x0 by (simp add: fl_def round_to_grid_def u_def)
  also have "pow2 u = of_int (2 ^ nat u)" using u1 by (simp add: pow2_def)
  finally have "fl x = of_int (round_half_even (x / of_int (2 ^ nat u)) * 2 ^ nat u)" by simp
  then show ?thesis unfolding x_def by blast
qed

lemma num_add_integral: "of_int (num_add a b) = js_add (of_int a) (of_int b)"
proof -
  obtain n :: int where "fl (of_int (a + b)) = of_int n" using fl_int_integral by blast
  then show ?thesis by (simp add: num_add_def js_add_def)
qed

lemma num_add_exact: "\<bar>a + b\<bar> < 2 ^ 53 \<Longrightarrow> num_add a b = a + b"
  using fl_of_int[of "a + b"] by (simp add: num_add_def js_add_def)

lemma num_add_mono:
  assumes "0 \<le> a + b" "a + b \<le> c + d"
  shows "num_add a b \<le> num_add c d"
proof -
  have "fl (of_int (a + b)) \<le> fl (of_int (c + d))"
    using assms by (intro fl_mono) simp_all
  then show ?thesis unfolding num_add_def js_add_def
    by (simp add: floor_mono)
qed

lemma absFloor_of_int: "absFloor (of_int n) = n"
  by (simp add: absFloor_def js_ceil_def js_floor_def)

lemma fl_binade:
  assumes "pow2 e \<le> \<bar>x\<bar>" "\<bar>x\<bar> < pow2 (e + 1)" "- 1022 \<le> e"
  shows "fl x = of_int (round_half_even (x / pow2 (e - 52))) * pow2 (e - 52)"
proof -
  have "ilog2 \<bar>x\<bar> = e" using assms(1,2) by (rule ilog2_unique)
  then have u: "ulp_exp x = e - 52" using assms(3) by (simp add: ulp_exp_def)
  have "x \<noteq> 0" using assms(1) pow2_pos[of e] by auto
  then show ?thesis by (simp add: fl_def u round_to_grid_def)
qed

lemma num_add_rounds: "num_add 9007199254740992 11 = 9007199254741004"
  using fl_binade[of 53 9007199254741003]
  by (simp add: num_add_def js_add_def pow2_def round_half_even_def Let_def)

text \<open>
  The day difference of \<open>dayjs\<close>. For dates within \<open>2 * 10^15\<close> milliseconds
  of the epoch no operation rounds before the division, and the rounded quotient has the
  integer part of the exact one: the difference is the elapsed time between the openings of
  the two dates, corrected by the change of the UTC offset, in whole days towards zero. It
  is the calendar difference where the zone keeps whole days, as on UTC. In Havana the
  date 2025-03-09 has 23 hours, and the difference from it to the next date is 0, to the
  date after that 1.
\<close>

lemma js_floor_div_day:
  assumes "0 \<le> s" "s \<le> 2 ^ 52"
  shows "js_floor (js_div (of_int s) 86400000) = s div 86400000"
proof -
  define k where "k = s div 86400000"
  have "s div 86400000 \<le> 2 ^ 52 div 86400000" using assms(2) by (intro zdiv_mono1) simp_all
  then have k26: "k < 2 ^ 26" by (simp add: k_def)
  have k: "0 \<le> k" "86400000 * k \<le> s" "s \<le> 86400000 * k + 86399999"
    using assms by (simp_all add: k_def)
  define r :: real where "r = of_int (2 ^ 27 * k + (2 ^ 27 - 1)) * pow2 (- 27)"
  have fr: "fl r = r" unfolding r_def using k k26 by (intro fl_representable) simp_all
  have r_eq: "r = of_int k + (1 - 1 / 2 ^ 27)" by (simp add: r_def pow2_def field_simps)
  have fk: "fl (of_int k) = of_int k" using k k26 by (intro fl_of_int) simp
  have "(of_int (86400000 * k) :: real) \<le> of_int s" using k(2) by (rule iffD2[OF of_int_le_iff])
  then have lo: "(of_int k :: real) \<le> of_int s / 86400000" by simp
  have "(of_int s :: real) \<le> of_int (86400000 * k + 86399999)"
    using k(3) by (rule iffD2[OF of_int_le_iff])
  then have "of_int s / 86400000 \<le> (of_int k :: real) + 86399999 / 86400000" by simp
  then have hi: "of_int s / 86400000 \<le> r" unfolding r_eq by simp
  have "fl (of_int k) \<le> fl (of_int s / 86400000)" using k(1) lo by (intro fl_mono) simp_all
  then have a: "of_int k \<le> fl (of_int s / 86400000)" by (simp only: fk)
  have "fl (of_int s / 86400000) \<le> fl r" using assms(1) hi by (intro fl_mono) simp_all
  then have "fl (of_int s / 86400000) \<le> r" by (simp only: fr)
  then have b: "fl (of_int s / 86400000) < of_int k + 1" by (simp add: r_eq)
  have "\<lfloor>fl (of_int s / 86400000)\<rfloor> = k" using a b by (intro floor_unique) simp_all
  then show ?thesis by (simp add: js_floor_def js_div_def k_def)
qed

lemma round_half_even_minus: "round_half_even (- x) = - round_half_even x"
proof (cases "x = of_int \<lfloor>x\<rfloor>")
  case True
  then obtain n :: int where n: "x = of_int n" ..
  have "round_half_even (of_int (- n)) = - n" by (rule round_half_even_of_int)
  then show ?thesis by (simp add: n round_half_even_of_int)
next
  case False
  then have f: "\<lfloor>- x\<rfloor> = - \<lfloor>x\<rfloor> - 1" by (simp add: floor_minus ceiling_altdef)
  have r: "0 < x - of_int \<lfloor>x\<rfloor>" using False floor_correct[of x] by linarith
  show ?thesis
    unfolding round_half_even_def Let_def f
    by (auto simp: algebra_simps)
qed

lemma fl_minus: "fl (- x) = - fl x"
  by (simp add: fl_def round_to_grid_def ulp_exp_def round_half_even_minus)

lemma absFloor_minus: "0 \<le> y \<Longrightarrow> absFloor (- y) = - \<lfloor>y\<rfloor>"
  by (simp add: absFloor_def js_ceil_def js_floor_def ceiling_minus)

lemma dayjs_diff_elapsed:
  assumes m: "\<bar>day_start_ms z a\<bar> \<le> 2 * 10 ^ 15" "\<bar>day_start_ms z b\<bar> \<le> 2 * 10 ^ 15"
    and off: "\<bar>utc_offset_min z a\<bar> \<le> 1440" "\<bar>utc_offset_min z b\<bar> \<le> 1440"
  defines "D \<equiv> day_start_ms z a - day_start_ms z b
                  - (utc_offset_min z b - utc_offset_min z a) * 60000"
  shows "dayjs_diff_days z a b
           = (if 0 \<le> D then D div 86400000 else - ((- D) div 86400000))"
proof -
  define ma mb oa ob where "ma = day_start_ms z a" and "mb = day_start_ms z b"
    and "oa = utc_offset_min z a" and "ob = utc_offset_min z b"
  have D: "D = ma - mb - (ob - oa) * 60000" by (simp add: D_def ma_def mb_def oa_def ob_def)
  note b = m[folded ma_def mb_def] off[folded oa_def ob_def]
  have 1: "fl (of_int ob - of_int oa) = of_int (ob - oa)"
    using fl_of_int[of "ob - oa"] b by simp
  have 2: "fl (of_int (ob - oa) * 60000) = of_int ((ob - oa) * 60000)"
    using fl_of_int[of "(ob - oa) * 60000"] b by simp
  have 3: "fl (of_int ma - of_int mb) = of_int (ma - mb)"
    using fl_of_int[of "ma - mb"] b by simp
  have d: "\<bar>D\<bar> < 2 ^ 53" "D \<le> 2 ^ 52" "- D \<le> 2 ^ 52" using b by (simp_all add: D)
  have "(of_int (ma - mb) - of_int ((ob - oa) * 60000) :: real) = of_int D"
    by (simp add: D)
  then have 4: "fl (of_int (ma - mb) - of_int ((ob - oa) * 60000)) = of_int D"
    using fl_of_int[OF d(1)] by (simp only:)
  have q: "dayjs_diff_days z a b = absFloor (fl (of_int D / 86400000))"
    unfolding dayjs_diff_days_def Let_def js_sub_def js_mul_def js_div_def
      ma_def[symmetric] mb_def[symmetric] oa_def[symmetric] ob_def[symmetric]
    by (simp only: 1 2 3 4)
  show ?thesis
  proof (cases "0 \<le> D")
    case True
    have q0: "0 \<le> fl (of_int D / 86400000)" using True by (intro fl_nonneg) simp
    have "\<lfloor>fl (of_int D / 86400000)\<rfloor> = D div 86400000"
      using js_floor_div_day[OF True d(2)] by (simp add: js_floor_def js_div_def)
    then show ?thesis using True q0 by (simp add: q absFloor_def js_floor_def)
  next
    case False
    then have n: "0 \<le> - D" by simp
    have q0: "0 \<le> fl (of_int (- D) / 86400000)" using n by (intro fl_nonneg) simp
    have 5: "\<lfloor>fl (of_int (- D) / 86400000)\<rfloor> = (- D) div 86400000"
      using js_floor_div_day[OF n d(3)] by (simp add: js_floor_def js_div_def)
    have "(of_int D / 86400000 :: real) = - (of_int (- D) / 86400000)" by simp
    then have "fl (of_int D / 86400000) = - fl (of_int (- D) / 86400000)"
      by (simp only: fl_minus)
    then have "dayjs_diff_days z a b = - \<lfloor>fl (of_int (- D) / 86400000)\<rfloor>"
      using absFloor_minus[OF q0] by (simp only: q)
    then show ?thesis using False by (simp only: 5 if_False)
  qed
qed

lemma dayjs_diff_whole_days:
  assumes "whole_days z a b"
  shows "dayjs_diff_days z a b = a - b"
proof -
  define ma mb oa ob where "ma = day_start_ms z a" and "mb = day_start_ms z b"
    and "oa = utc_offset_min z a" and "ob = utc_offset_min z b"
  have e: "ma - mb - (ob - oa) * 60000 = (a - b) * 86400000"
    and m: "\<bar>ma\<bar> \<le> 4 * 10 ^ 15" "\<bar>mb\<bar> \<le> 4 * 10 ^ 15"
    and off: "\<bar>oa\<bar> \<le> 1440" "\<bar>ob\<bar> \<le> 1440"
    using assms by (simp_all add: whole_days_def ma_def mb_def oa_def ob_def)
  have 1: "fl (of_int ob - of_int oa) = of_int (ob - oa)"
    using fl_of_int[of "ob - oa"] off by simp
  have 2: "fl (of_int (ob - oa) * 60000) = of_int ((ob - oa) * 60000)"
    using fl_of_int[of "(ob - oa) * 60000"] off by simp
  have 3: "fl (of_int ma - of_int mb) = of_int (ma - mb)"
    using fl_of_int[of "ma - mb"] m by simp
  have d: "\<bar>(a - b) * 86400000\<bar> < 2 ^ 53" using e m off by simp
  have "(of_int (ma - mb) - of_int ((ob - oa) * 60000) :: real)
          = of_int (ma - mb - (ob - oa) * 60000)" by simp
  then have 4: "fl (of_int (ma - mb) - of_int ((ob - oa) * 60000)) = of_int ((a - b) * 86400000)"
    using fl_of_int[OF d] by (simp only: e)
  have "\<bar>a - b\<bar> < 2 ^ 53" using d by simp
  moreover have "(of_int ((a - b) * 86400000) / 86400000 :: real) = of_int (a - b)" by simp
  ultimately have 5: "fl (of_int ((a - b) * 86400000) / 86400000) = of_int (a - b)"
    using fl_of_int[of "a - b"] by (simp only:)
  show ?thesis
    unfolding dayjs_diff_days_def Let_def js_sub_def js_mul_def js_div_def
      ma_def[symmetric] mb_def[symmetric] oa_def[symmetric] ob_def[symmetric]
    by (simp only: 1 2 3 4 5 absFloor_of_int)
qed

lemma whole_days_utc:
  "\<bar>a\<bar> \<le> 10 ^ 7 \<Longrightarrow> \<bar>b\<bar> \<le> 10 ^ 7 \<Longrightarrow> whole_days utc_zone a b"
  by (simp add: whole_days_def utc_zone_def abs_le_iff)

lemma dayjs_diff_utc:
  "\<bar>a\<bar> \<le> 10 ^ 7 \<Longrightarrow> \<bar>b\<bar> \<le> 10 ^ 7 \<Longrightarrow> dayjs_diff_days utc_zone a b = a - b"
  by (rule dayjs_diff_whole_days) (rule whole_days_utc)

lemma dayjs_diff_havana_next: "dayjs_diff_days havana_zone 20157 20156 = 0"
  using dayjs_diff_elapsed[of havana_zone 20157 20156] by (simp add: havana_zone_def)

lemma dayjs_diff_havana_skip: "dayjs_diff_days havana_zone 20158 20156 = 1"
  using dayjs_diff_elapsed[of havana_zone 20158 20156] by (simp add: havana_zone_def)

text \<open>
  Below \<open>2^50\<close> the rounding of the square root never reaches the next even integer, so
  the level is the one of exact arithmetic: \<open>k + 1\<close> for \<open>(2k)\<^sup>2 \<le> totalXP < (2k+2)\<^sup>2\<close>.
\<close>

lemma computeLevel_exact:
  assumes k: "0 \<le> k" "k < 2 ^ 24" and lo: "(2 * k)\<^sup>2 \<le> x" and hi: "x < (2 * k + 2)\<^sup>2"
  shows "computeLevel x = Some (k + 1)"
proof -
  define a :: real where "a = of_int (2 * k)"
  define m :: int where "m = (2 * k + 2) * 2 ^ 26 - 1"
  define r :: real where "r = of_int m * pow2 (- 26)"
  have m: "\<bar>m\<bar> < 2 ^ 53" using k by (simp add: m_def)
  have r_eq: "r = of_int (2 * k + 2) - 1 / 2 ^ 26" by (simp add: r_def m_def pow2_def field_simps)
  have r2: "r / 2 = of_int m * pow2 (- 27)" by (simp add: r_def pow2_def)
  have fa: "fl a = a" unfolding a_def using k by (intro fl_of_int) simp
  have fr: "fl r = r" unfolding r_def using m by (intro fl_representable) simp_all
  have fk: "fl (of_int k) = of_int k" using k by (intro fl_of_int) simp
  have fr2: "fl (r / 2) = r / 2" unfolding r2 using m by (intro fl_representable) simp_all
  have x0: "0 \<le> x" using lo by (meson order_trans zero_le_power2)
  have a0: "0 \<le> a" using k by (simp add: a_def)
  have "a\<^sup>2 \<le> of_int x"
  proof -
    have "(of_int ((2 * k)\<^sup>2) :: real) \<le> of_int x" using lo by (rule iffD2[OF of_int_le_iff])
    then show ?thesis by (simp add: a_def)
  qed
  then have s_lo: "a \<le> sqrt (of_int x)" by (rule real_le_rsqrt)
  have r0: "0 \<le> r" using k by (simp add: r_eq)
  have "of_int x \<le> r\<^sup>2"
  proof -
    define c :: real where "c = of_int (2 * k + 2)"
    have "x \<le> (2 * k + 2)\<^sup>2 - 1" using hi by simp
    then have "(of_int x :: real) \<le> of_int ((2 * k + 2)\<^sup>2 - 1)" by (rule iffD2[OF of_int_le_iff])
    then have 1: "of_int x \<le> c\<^sup>2 - 1" by (simp add: c_def)
    have "(of_int (2 * k + 2) :: real) \<le> of_int (2 ^ 25)"
      using k by (intro iffD2[OF of_int_le_iff]) simp
    then have "c \<le> 2 ^ 25" by (simp add: c_def)
    then have 2: "c / 2 ^ 25 \<le> 1" by simp
    have rc: "r = c - 1 / 2 ^ 26" by (simp add: r_eq c_def)
    have 3: "r\<^sup>2 = c\<^sup>2 - c / 2 ^ 25 + 1 / 2 ^ 52"
      unfolding rc by (simp add: power2_eq_square algebra_simps)
    have "(0::real) \<le> 1 / 2 ^ 52" by simp
    with 1 2 3 show ?thesis by linarith
  qed
  then have s_hi: "sqrt (of_int x) \<le> r" using r0 by (intro real_le_lsqrt) simp_all
  have "fl a \<le> fl (sqrt (of_int x))" using a0 s_lo by (rule fl_mono)
  then have b1: "a \<le> fl (sqrt (of_int x))" by (simp add: fa)
  have "fl (sqrt (of_int x)) \<le> fl r" using s_hi x0 by (intro fl_mono) simp_all
  then have b2: "fl (sqrt (of_int x)) \<le> r" by (simp add: fr)
  have "fl (of_int k) \<le> fl (fl (sqrt (of_int x)) / 2)"
    using k b1 by (intro fl_mono) (simp_all add: a_def)
  then have c1: "of_int k \<le> fl (fl (sqrt (of_int x)) / 2)" by (simp add: fk)
  have "fl (fl (sqrt (of_int x)) / 2) \<le> fl (r / 2)"
    using b2 x0 by (intro fl_mono) (simp_all add: fl_nonneg)
  then have c2: "fl (fl (sqrt (of_int x)) / 2) \<le> r / 2" by (simp add: fr2)
  have "r / 2 < of_int k + 1" by (simp add: r_eq field_simps)
  with c1 c2 have "\<lfloor>fl (fl (sqrt (of_int x)) / 2)\<rfloor> = k" by (intro floor_unique) simp_all
  moreover have "num_add k 1 = k + 1" using k by (intro num_add_exact) simp
  ultimately show ?thesis
    using x0 by (simp add: computeLevel_def js_floor_def js_div_def js_sqrt_def)
qed

section \<open>Properties of the handlers\<close>

lemma find_Some_holds: "find P xs = Some x \<Longrightarrow> P x \<and> x \<in> set xs"
  by (auto simp: find_Some_iff)

lemma applyStreakProgress_longest:
  "current_streak (applyStreakProgress ev u) \<le> longest_streak (applyStreakProgress ev u)"
  by (simp add: applyStreakProgress_def Let_def)

lemma applyStreakProgress_fields:
  "u_id (applyStreakProgress ev u) = u_id u"
  "total_xp (applyStreakProgress ev u) = total_xp u"
  "level (applyStreakProgress ev u) = level u"
  "avatar_tier (applyStreakProgress ev u) = avatar_tier u"
  "longest_streak (applyStreakProgress ev u)
     = max (longest_streak u) (current_streak (applyStreakProgress ev u))"
  "last_active_local_date (applyStreakProgress ev u) = Some (today ev)"
  by (simp_all add: applyStreakProgress_def Let_def)

lemma applyStreakProgress_streak:
  "current_streak (applyStreakProgress ev u) =
     (case last_active_local_date u of
        None \<Rightarrow> 1
      | Some lastDay \<Rightarrow>
          if dayjs_diff_days (zone ev) (today ev) lastDay = 0 then current_streak u
          else if dayjs_diff_days (zone ev) (today ev) lastDay = 1 then current_streak u + 1
          else 1)"
  by (simp add: applyStreakProgress_def Let_def split: option.splits)

text \<open>
  Where the zone keeps whole days between the two dates, the streak update follows the
  calendar difference.
\<close>

lemma applyStreakProgress_whole_days:
  assumes "last_active_local_date u = Some lastDay"
    and "whole_days (zone ev) (today ev) lastDay"
  shows "current_streak (applyStreakProgress ev u) =
     (if today ev - lastDay = 0 then current_streak u
      else if today ev - lastDay = 1 then current_streak u + 1
      else 1)"
  using assms(1) dayjs_diff_whole_days[OF assms(2)]
  by (simp add: applyStreakProgress_streak)

lemma award_Some:
  assumes "award ev b u0 = Some (mult, g, u)"
  shows "current_streak u = current_streak (applyStreakProgress ev u0)"
    and "longest_streak u = longest_streak (applyStreakProgress ev u0)"
    and "last_active_local_date u = Some (today ev)"
    and "u_id u = u_id u0"
    and "mult = streakMultiplier (current_streak u)"
    and "g = js_round (js_mul b mult)"
    and "total_xp u = num_add (total_xp u0) g"
    and "computeLevel (total_xp u) = Some (level u)"
    and "avatar_tier u = avatar_tier u0 + (if level u0 < level u \<and> level u mod 5 = 0 then 1 else 0)"
  using assms
  by (auto simp: award_def Let_def applyStreakProgress_fields split: option.splits)

lemma find_upsertUser: "find (\<lambda>x. u_id x = u_id u) (upsertUser u us) = Some u"
proof (cases "find (\<lambda>x. u_id x = u_id u) us")
  case None
  then show ?thesis by (induction us) (auto simp: upsertUser_def split: if_splits)
next
  case (Some a)
  have "find (\<lambda>x. u_id x = u_id u) us \<noteq> None \<Longrightarrow>
        find (\<lambda>x. u_id x = u_id u) (map (\<lambda>x. if u_id x = u_id u then u else x) us) = Some u"
    by (induction us) auto
  with Some show ?thesis by (simp add: upsertUser_def)
qed

lemma list_all_upsertUser:
  "list_all P us \<Longrightarrow> P u \<Longrightarrow> list_all P (upsertUser u us)"
  by (auto simp: upsertUser_def list_all_iff)

lemma ensure_user_id: "ensure_user uid d = (u, d') \<Longrightarrow> u_id u = uid"
  by (auto simp: ensure_user_def getUser_def default_user_def split: option.splits dest: find_Some_holds)

lemma ensure_user_getUser: "ensure_user uid d = (u, d') \<Longrightarrow> getUser d' uid = Some u"
  using find_upsertUser[of "default_user uid" "users d"]
  by (auto simp: ensure_user_def getUser_def default_user_def split: option.splits)

lemma ensure_user_inv:
  assumes "ensure_user uid d = (u, d')" "streak_inv d"
  shows "streak_inv d'" "current_streak u \<le> longest_streak u"
  using assms
  by (auto simp: ensure_user_def streak_inv_def getUser_def default_user_def list_all_iff
      upsertUser_def split: option.splits if_splits dest: find_Some_holds)

lemma award_inv: "award ev b u0 = Some (mult, g, u) \<Longrightarrow> current_streak u \<le> longest_streak u"
  using award_Some(1,2)[of ev b u0 mult g u] applyStreakProgress_longest[of ev u0] by simp

lemma post_runs_inv:
  assumes "streak_inv d"
  shows "streak_inv (snd (post_runs ev uid qid d))"
proof -
  obtain u0 d1 where e: "ensure_user uid d = (u0, d1)" by (cases "ensure_user uid d")
  note i = ensure_user_inv[OF e assms]
  show ?thesis
    using i(1) award_inv
    by (auto simp: post_runs_def e streak_inv_def split: option.splits intro!: list_all_upsertUser)
qed

lemma post_routine_log_inv:
  assumes "streak_inv d"
  shows "streak_inv (snd (post_routine_log ev uid rid d))"
proof -
  obtain u0 d1 where e: "ensure_user uid d = (u0, d1)" by (cases "ensure_user uid d")
  note i = ensure_user_inv[OF e assms]
  show ?thesis
    using i(1) award_inv
    by (auto simp: post_routine_log_def e streak_inv_def split: option.splits intro!: list_all_upsertUser)
qed

lemma handle_inv: "streak_inv d \<Longrightarrow> streak_inv (handle er d)"
  by (auto simp: handle_def post_runs_inv post_routine_log_inv split: prod.splits request.splits)

lemma exec_inv: "streak_inv d \<Longrightarrow> streak_inv (exec ers d)"
  unfolding exec_def by (induction ers arbitrary: d) (simp_all add: handle_inv)

lemma post_runs_Inr_quest:
  "fst (post_runs ev uid qid d) = Inr resp \<Longrightarrow> \<exists>q. getQuest (snd (ensure_user uid d)) qid = Some q"
  by (cases "ensure_user uid d") (auto simp: post_runs_def split: option.splits)

lemma post_runs_Inr:
  assumes "fst (post_runs ev uid qid d) = Inr resp"
    and "getQuest (snd (ensure_user uid d)) qid = Some q"
  shows "cooldown_wait (now_ms ev) q (lastRunForQuest (snd (ensure_user uid d)) uid qid) = None"
    and "award ev (of_int (q_base_points q)) (fst (ensure_user uid d))
           = Some (rr_multiplier resp, rr_gainedXP resp, rr_progress resp)"
    and "rr_basePoints resp = q_base_points q"
    and "rr_streakApplied resp = current_streak (rr_progress resp)"
    and "rr_leveledUp resp = (level (fst (ensure_user uid d)) < level (rr_progress resp))"
    and "users (snd (post_runs ev uid qid d))
           = upsertUser (rr_progress resp) (users (snd (ensure_user uid d)))"
proof -
  obtain u0 d1 where e: "ensure_user uid d = (u0, d1)" by (cases "ensure_user uid d")
  have i: "u_id u0 = uid" using ensure_user_id[OF e] .
  show "cooldown_wait (now_ms ev) q (lastRunForQuest (snd (ensure_user uid d)) uid qid) = None"
    and "award ev (of_int (q_base_points q)) (fst (ensure_user uid d))
           = Some (rr_multiplier resp, rr_gainedXP resp, rr_progress resp)"
    and "rr_basePoints resp = q_base_points q"
    and "rr_streakApplied resp = current_streak (rr_progress resp)"
    and "rr_leveledUp resp = (level (fst (ensure_user uid d)) < level (rr_progress resp))"
    and "users (snd (post_runs ev uid qid d))
           = upsertUser (rr_progress resp) (users (snd (ensure_user uid d)))"
    using assms i by (auto simp: post_runs_def e split: option.splits)
qed

lemma post_routine_log_Inr_routine:
  "fst (post_routine_log ev uid rid d) = Inr resp \<Longrightarrow>
     \<exists>rt. getRoutineById (snd (ensure_user uid d)) rid uid = Some rt"
  by (cases "ensure_user uid d") (auto simp: post_routine_log_def split: option.splits)

lemma post_routine_log_Inr:
  assumes "fst (post_routine_log ev uid rid d) = Inr resp"
    and "getRoutineById (snd (ensure_user uid d)) rid uid = Some rt"
  shows "\<not> r_daily_target rt
            \<le> of_int (countRoutineLogsToday (snd (ensure_user uid d)) rid uid (today ev))"
    and "award ev (r_base_points rt) (fst (ensure_user uid d))
           = Some (streakMultiplier (current_streak (lr_progress resp)),
                   lr_gainedXP resp, lr_progress resp)"
    and "users (snd (post_routine_log ev uid rid d))
           = upsertUser (lr_progress resp) (users (snd (ensure_user uid d)))"
    and "routine_logs (snd (post_routine_log ev uid rid d))
           = routine_logs (snd (ensure_user uid d)) @
               [\<lparr>rl_id = new_id ev, rl_routine_id = rid, rl_user_id = uid,
                 rl_gained_xp = lr_gainedXP resp, rl_created_at = now_ms ev,
                 rl_local_date = today ev\<rparr>]"
proof -
  obtain u0 d1 where e: "ensure_user uid d = (u0, d1)" by (cases "ensure_user uid d")
  show "\<not> r_daily_target rt
            \<le> of_int (countRoutineLogsToday (snd (ensure_user uid d)) rid uid (today ev))"
    and "award ev (r_base_points rt) (fst (ensure_user uid d))
           = Some (streakMultiplier (current_streak (lr_progress resp)),
                   lr_gainedXP resp, lr_progress resp)"
    and "users (snd (post_routine_log ev uid rid d))
           = upsertUser (lr_progress resp) (users (snd (ensure_user uid d)))"
    and "routine_logs (snd (post_routine_log ev uid rid d))
           = routine_logs (snd (ensure_user uid d)) @
               [\<lparr>rl_id = new_id ev, rl_routine_id = rid, rl_user_id = uid,
                 rl_gained_xp = lr_gainedXP resp, rl_created_at = now_ms ev,
                 rl_local_date = today ev\<rparr>]"
    using assms award_Some(5)
    by (auto simp: post_routine_log_def e split: option.splits if_splits)
qed

lemma getUser_upsert:
  "users d' = upsertUser u us \<Longrightarrow> getUser d' (u_id u) = Some u"
  by (simp add: getUser_def find_upsertUser)

lemma ensure_user_fst_id: "u_id (fst (ensure_user uid d)) = uid"
  using ensure_user_id[of uid d] by (cases "ensure_user uid d") simp

text \<open>Unfolding rules and numeric facts for running the handlers on concrete requests.\<close>

lemmas eval_defs = post_runs_def post_routine_log_def ensure_user_def getUser_def seeded_db_def
  seed_quests_def at_time_def default_user_def upsertUser_def getQuest_def cooldown_wait_def
  award_def Let_def applyStreakProgress_def getRoutineById_def countRoutineLogsToday_def
  routine_of_def streak_user_def lastRunForQuest_def dayjs_diff_utc num_add_exact

lemma streakMultiplier_1: "streakMultiplier 1 = fl (21 / 20)"
  using streakMultiplier_closed[of 1] by simp

lemma gained_10_at_1: "js_round (js_mul 10 (fl (21 / 20))) = 11"
  by code_simp

lemma gained_324_at_1: "js_round (js_mul 324 (fl (21 / 20))) = 340"
  by code_simp

lemma computeLevel_11: "computeLevel 11 = Some 2"
  using computeLevel_exact[of 1 11] by simp

lemma computeLevel_340: "computeLevel 340 = Some 10"
  using computeLevel_exact[of 9 340] by simp



lemma js_ceil_div_1000:
  assumes "0 \<le> k" "k \<le> 1000 * 2 ^ 42"
  shows "js_ceil (js_div (of_int k) 1000) = \<lceil>of_int k / (1000::real)\<rceil>"
proof -
  define n where "n = \<lceil>of_int k / (1000::real)\<rceil>"
  have n_hi: "of_int k / 1000 \<le> (of_int n :: real)" by (simp add: n_def)
  have n_lo: "(of_int n :: real) - 1 < of_int k / 1000" unfolding n_def by linarith
  have n0: "0 \<le> n" using assms(1) by (simp add: n_def)
  have "of_int k / (1000::real) \<le> of_int (2 ^ 42)"
  proof -
    have "(of_int k :: real) \<le> of_int (1000 * 2 ^ 42)" using assms(2) by (rule iffD2[OF of_int_le_iff])
    then show ?thesis by simp
  qed
  then have n42: "n \<le> 2 ^ 42" unfolding n_def by (simp only: ceiling_le_iff)
  have fn: "fl (of_int n) = of_int n" using n0 n42 by (intro fl_of_int) simp
  have "fl (of_int k / 1000) \<le> fl (of_int n)" using assms(1) n_hi by (intro fl_mono) simp_all
  then have up: "fl (of_int k / 1000) \<le> of_int n" by (simp add: fn)
  have lo: "of_int n - 1 < fl (of_int k / 1000)"
  proof (cases "k = 0")
    case True
    then show ?thesis by (simp add: n_def fl_def)
  next
    case False
    define m where "m = (n - 1) * 1024 + 1"
    define r where "r = of_int m * pow2 (- 10)"
    have k1: "0 < k" using False assms(1) by simp
    then have n1: "1 \<le> n" unfolding n_def by (simp add: ceiling_le_iff[symmetric] not_le[symmetric]) 
    have m: "\<bar>m\<bar> < 2 ^ 53" using n1 n42 by (simp add: m_def)
    have fr: "fl r = r" unfolding r_def using m by (intro fl_representable) simp_all
    have r_eq: "r = of_int n - 1 + 1 / 1024" by (simp add: r_def m_def pow2_def field_simps)
    have "1000 * (n - 1) < k"
    proof -
      have "of_int (1000 * (n - 1)) < (of_int k :: real)" using n_lo by (simp add: field_simps)
      then show ?thesis by (simp only: of_int_less_iff)
    qed
    then have "1000 * (n - 1) + 1 \<le> k" by simp
    then have "(of_int (1000 * (n - 1) + 1) :: real) \<le> of_int k" by (rule iffD2[OF of_int_le_iff])
    then have "of_int n - 1 + 1 / 1000 \<le> of_int k / (1000::real)" by (simp add: field_simps)
    then have rk: "r \<le> of_int k / 1000" unfolding r_eq by simp
    have r0: "0 \<le> r" using n1 by (simp add: r_eq)
    have "fl r \<le> fl (of_int k / 1000)" using r0 rk by (rule fl_mono)
    then have "r \<le> fl (of_int k / 1000)" by (simp only: fr)
    moreover have "of_int n - 1 < r" by (simp add: r_eq)
    ultimately show ?thesis by linarith
  qed
  have "\<lceil>fl (of_int k / 1000)\<rceil> = n" using lo up by (intro ceiling_unique) simp_all
  then show ?thesis by (simp add: js_ceil_def js_div_def n_def)
qed

lemma foldl_latest:
  "foldl (\<lambda>a b. if run_created_at a < run_created_at b then b else a) r rs \<in> set (r # rs)
   \<and> (\<forall>x\<in>set (r # rs). run_created_at x
          \<le> run_created_at (foldl (\<lambda>a b. if run_created_at a < run_created_at b then b else a) r rs))"
proof (induction rs arbitrary: r)
  case Nil
  then show ?case by simp
next
  case (Cons a rs)
  show ?case
    using Cons.IH[of "if run_created_at r < run_created_at a then a else r"]
    by (auto split: if_splits)
qed

lemma lastRunForQuest_None:
  "lastRunForQuest d uid qid = None
     \<longleftrightarrow> \<not> (\<exists>r\<in>set (runs d). run_user_id r = uid \<and> run_quest_id r = qid)"
proof -
  have "filter (\<lambda>r. run_user_id r = uid \<and> run_quest_id r = qid) (runs d) = []
          \<longleftrightarrow> \<not> (\<exists>r\<in>set (runs d). run_user_id r = uid \<and> run_quest_id r = qid)"
    by (simp add: filter_empty_conv)
  then show ?thesis
    by (cases "filter (\<lambda>r. run_user_id r = uid \<and> run_quest_id r = qid) (runs d)")
       (simp_all add: lastRunForQuest_def)
qed

lemma lastRunForQuest_Some:
  assumes "lastRunForQuest d uid qid = Some l"
  shows "l \<in> set (runs d) \<and> run_user_id l = uid \<and> run_quest_id l = qid
       \<and> (\<forall>r\<in>set (runs d). run_user_id r = uid \<and> run_quest_id r = qid
             \<longrightarrow> run_created_at r \<le> run_created_at l)"
proof -
  define P where "P = (\<lambda>r :: run. run_user_id r = uid \<and> run_quest_id r = qid)"
  from assms obtain r rs where f: "filter P (runs d) = r # rs"
    and l: "l = foldl (\<lambda>a b. if run_created_at a < run_created_at b then b else a) r rs"
    by (auto simp: lastRunForQuest_def P_def split: list.splits)
  from foldl_latest[of r rs] have "l \<in> set (filter P (runs d))"
    and "\<forall>x\<in>set (filter P (runs d)). run_created_at x \<le> run_created_at l"
    unfolding f l by blast+
  then show ?thesis by (auto simp: P_def)
qed

lemma ensure_user_tables:
  "quests (snd (ensure_user uid d)) = quests d"
  "runs (snd (ensure_user uid d)) = runs d"
  "routines (snd (ensure_user uid d)) = routines d"
  "routine_logs (snd (ensure_user uid d)) = routine_logs d"
  by (simp_all add: ensure_user_def split: option.splits)

lemma cooldown_wait_Some:
  "cooldown_wait now q lr = Some w \<longleftrightarrow>
     0 < q_cooldown_sec q
     \<and> (\<exists>l. lr = Some l \<and> now - run_created_at l < q_cooldown_sec q * 1000
            \<and> w = js_ceil (js_div (of_int (q_cooldown_sec q * 1000 - (now - run_created_at l))) 1000))"
  by (auto simp: cooldown_wait_def Let_def split: option.splits)

lemma post_runs_gate:
  assumes "getQuest (snd (ensure_user uid d)) qid = Some q"
  shows "fst (post_runs ev uid qid d) = Inl (RATE_LIMITED w)
           \<longleftrightarrow> cooldown_wait (now_ms ev) q (lastRunForQuest (snd (ensure_user uid d)) uid qid) = Some w"
    and "cooldown_wait (now_ms ev) q (lastRunForQuest (snd (ensure_user uid d)) uid qid) = Some w
           \<Longrightarrow> post_runs ev uid qid d = (Inl (RATE_LIMITED w), snd (ensure_user uid d))"
proof -
  obtain u0 d1 where e: "ensure_user uid d = (u0, d1)" by (cases "ensure_user uid d")
  have i: "u_id u0 = uid" using ensure_user_id[OF e] .
  show "fst (post_runs ev uid qid d) = Inl (RATE_LIMITED w)
           \<longleftrightarrow> cooldown_wait (now_ms ev) q (lastRunForQuest (snd (ensure_user uid d)) uid qid) = Some w"
    using assms i by (auto simp: post_runs_def e split: option.splits)
  show "cooldown_wait (now_ms ev) q (lastRunForQuest (snd (ensure_user uid d)) uid qid) = Some w
           \<Longrightarrow> post_runs ev uid qid d = (Inl (RATE_LIMITED w), snd (ensure_user uid d))"
    using assms i by (auto simp: post_runs_def e split: option.splits)
qed

lemma lastRunForQuest_ensure [simp]:
  "lastRunForQuest (snd (ensure_user uid d)) u qid = lastRunForQuest d u qid"
  by (simp add: lastRunForQuest_def ensure_user_tables)

lemma gained_5_at_1: "js_round (js_mul 5 (fl (21 / 20))) = 5"
  by code_simp

lemma computeLevel_5: "computeLevel 5 = Some 2"
  using computeLevel_exact[of 1 5] by simp

lemma computeLevel_10: "computeLevel 10 = Some 2"
  using computeLevel_exact[of 1 10] by simp

lemma getQuest_ensure [simp]: "getQuest (snd (ensure_user uid d)) qid = getQuest d qid"
  by (simp add: getQuest_def ensure_user_tables)

lemma getRoutineById_ensure [simp]:
  "getRoutineById (snd (ensure_user uid d)) rid u = getRoutineById d rid u"
  by (simp add: getRoutineById_def ensure_user_tables)

lemma countRoutineLogsToday_ensure [simp]:
  "countRoutineLogsToday (snd (ensure_user uid d)) rid u date = countRoutineLogsToday d rid u date"
  by (simp add: countRoutineLogsToday_def ensure_user_tables)


lemma post_routine_log_gate:
  assumes "getRoutineById d rid uid = Some rt"
  shows "fst (post_routine_log ev uid rid d) = Inl LIMIT_REACHED
           \<longleftrightarrow> r_daily_target rt \<le> of_int (countRoutineLogsToday d rid uid (today ev))"
    and "r_daily_target rt \<le> of_int (countRoutineLogsToday d rid uid (today ev))
           \<Longrightarrow> post_routine_log ev uid rid d = (Inl LIMIT_REACHED, snd (ensure_user uid d))"
proof -
  obtain u0 d1 where e: "ensure_user uid d = (u0, d1)" by (cases "ensure_user uid d")
  have r: "getRoutineById d1 rid uid = Some rt"
    using assms getRoutineById_ensure[of uid d rid uid] by (simp add: e)
  have c: "countRoutineLogsToday d1 rid uid (today ev) = countRoutineLogsToday d rid uid (today ev)"
    using countRoutineLogsToday_ensure[of uid d rid uid "today ev"] by (simp add: e)
  show "fst (post_routine_log ev uid rid d) = Inl LIMIT_REACHED
           \<longleftrightarrow> r_daily_target rt \<le> of_int (countRoutineLogsToday d rid uid (today ev))"
    using r c by (auto simp: post_routine_log_def e split: option.splits)
  show "r_daily_target rt \<le> of_int (countRoutineLogsToday d rid uid (today ev))
           \<Longrightarrow> post_routine_log ev uid rid d = (Inl LIMIT_REACHED, snd (ensure_user uid d))"
    using r c by (auto simp: post_routine_log_def e split: option.splits)
qed








text \<open>The day series is dense: one row per day of the window, with that day's counts.\<close>

lemma foldl_empty_days:
  "foldl (\<lambda>m date. m(date \<mapsto> empty_day date)) m0 ds date
     = (if date \<in> set ds then Some (empty_day date) else m0 date)"
  by (induction ds arbitrary: m0) auto

lemma foldl_put_runs:
  "foldl put_runs m (map (\<lambda>date. (date, n date, x date)) ds) date
     = (if date \<in> set ds then map_option (\<lambda>row. row\<lparr>dr_quests := n date, dr_xp := x date\<rparr>) (m date)
        else m date)"
proof (induction ds arbitrary: m)
  case Nil
  then show ?case by simp
next
  case (Cons a ds)
  show ?case
    by (simp add: Cons.IH) (auto simp: put_runs_def split: option.splits)
qed

lemma foldl_put_logs:
  "foldl put_logs m (map (\<lambda>date. (date, n date)) ds) date
     = (if date \<in> set ds then map_option (\<lambda>row. row\<lparr>dr_routineLogs := n date\<rparr>) (m date)
        else m date)"
proof (induction ds arbitrary: m)
  case Nil
  then show ?case by simp
next
  case (Cons a ds)
  show ?case
    by (simp add: Cons.IH) (auto simp: put_logs_def split: option.splits)
qed

lemma map_filter_total:
  "(\<And>x. x \<in> set xs \<Longrightarrow> f x = Some (g x)) \<Longrightarrow> List.map_filter f xs = map g xs"
  by (induction xs) (simp_all add: List.map_filter_simps)

lemma window_days_range: "date \<in> set (window_days tday) \<longleftrightarrow> tday - 6 \<le> date \<and> date \<le> tday"
  by (auto simp: window_days_def)

lemma series_routineLogs:
  "map dr_routineLogs (in_series (fst (insights_weekly ev uid d)))
     = map (logs_on d uid) (window_days (today ev))"
proof -
  obtain u d1 where e: "ensure_user uid d = (u, d1)" by (cases "ensure_user uid d")
  have l1: "routine_logs d1 = routine_logs d" and r1: "runs d1 = runs d"
    using ensure_user_tables(2,4)[of uid d] by (simp_all add: e)
  define tday where "tday = today ev"
  define ls where "ls = filter (\<lambda>l. rl_user_id l = uid \<and> tday - 6 \<le> rl_local_date l
                             \<and> rl_local_date l \<le> tday) (routine_logs d)"
  define nL where "nL = (\<lambda>date. int (length (filter (\<lambda>l. rl_local_date l = date) ls)))"
  define rs where "rs = filter (\<lambda>r. run_user_id r = uid \<and> tday - 6 \<le> run_local_date r
                             \<and> run_local_date r \<le> tday) (runs d)"
  define nR where "nR = (\<lambda>date. int (length (filter (\<lambda>r. run_local_date r = date) rs)))"
  define xR where "xR = (\<lambda>date. sum_list (map run_gained_xp (filter (\<lambda>r. run_local_date r = date) rs)))"
  define byDay where "byDay =
     foldl put_logs
       (foldl put_runs (foldl (\<lambda>m date. m(date \<mapsto> empty_day date)) Map.empty (window_days tday))
          (map (\<lambda>date. (date, nR date, xR date)) (remdups (map run_local_date rs))))
       (map (\<lambda>date. (date, nL date)) (remdups (map rl_local_date ls)))"
  have ser: "in_series (fst (insights_weekly ev uid d)) = List.map_filter byDay (window_days tday)"
    by (simp add: insights_weekly_def e Let_def runsByDay_def routineLogsByDay_def l1 r1
        byDay_def tday_def ls_def nL_def rs_def nR_def xR_def)
  have nL0: "nL date = 0" if "date \<notin> set (map rl_local_date ls)" for date
  proof -
    have "filter (\<lambda>l. rl_local_date l = date) ls = []"
      using that by (auto simp: filter_empty_conv)
    then show ?thesis by (simp add: nL_def)
  qed
  have row: "\<exists>row. byDay date = Some row \<and> dr_routineLogs row = nL date"
    if "date \<in> set (window_days tday)" for date
  proof -
    have b0: "foldl (\<lambda>m date. m(date \<mapsto> empty_day date)) Map.empty (window_days tday) date
                = Some (empty_day date)"
      using that by (simp add: foldl_empty_days)
    show ?thesis
      unfolding byDay_def foldl_put_logs foldl_put_runs b0
      using nL0[of date] by (auto simp: empty_day_def)
  qed
  have cnt: "nL date = logs_on d uid date" if "date \<in> set (window_days tday)" for date
  proof -
    have "filter (\<lambda>l. rl_local_date l = date) ls
        = filter (\<lambda>l. rl_user_id l = uid \<and> rl_local_date l = date) (routine_logs d)"
      using that unfolding ls_def window_days_range filter_filter
      by (intro filter_cong) auto
    then show ?thesis by (simp add: nL_def logs_on_def)
  qed
  define g where "g = (\<lambda>date. case byDay date of Some row \<Rightarrow> row | None \<Rightarrow> empty_day date)"
  have "List.map_filter byDay (window_days tday) = map g (window_days tday)"
  proof (rule map_filter_total)
    fix x assume "x \<in> set (window_days tday)"
    from row[OF this] show "byDay x = Some (g x)" by (auto simp: g_def)
  qed
  moreover have "dr_routineLogs (g date) = logs_on d uid date"
    if "date \<in> set (window_days tday)" for date
    using row[OF that] cnt[OF that] by (auto simp: g_def)
  ultimately show ?thesis by (simp add: ser tday_def)
qed

lemma activeRoutines_ensure [simp]:
  "activeRoutines (snd (ensure_user uid d)) u = activeRoutines d u"
  by (simp add: activeRoutines_def ensure_user_tables)

lemma insights_fields:
  fixes ev uid d
  defines "r \<equiv> fst (insights_weekly ev uid d)"
  shows "in_dailyTargetTotal r
           = foldl (\<lambda>acc rt. js_add acc (r_daily_target rt)) 0 (activeRoutines d uid)"
    and "in_daysMetTarget r
           = int (length (filter (\<lambda>n. 0 < in_dailyTargetTotal r \<and> in_dailyTargetTotal r \<le> of_int n)
                            (map dr_routineLogs (in_series r))))"
    and "in_completionRate r = completion_rate (in_dailyTargetTotal r) (in_daysMetTarget r)"
    and "in_riskBand r = risk_of (in_completionRate r)"
    and "snd (insights_weekly ev uid d) = snd (ensure_user uid d)"
proof -
  obtain u d1 where e: "ensure_user uid d = (u, d1)" by (cases "ensure_user uid d")
  have a: "activeRoutines d1 uid = activeRoutines d uid"
    using activeRoutines_ensure[of uid d uid] by (simp add: e)
  show "in_dailyTargetTotal r
           = foldl (\<lambda>acc rt. js_add acc (r_daily_target rt)) 0 (activeRoutines d uid)"
    and "in_daysMetTarget r
           = int (length (filter (\<lambda>n. 0 < in_dailyTargetTotal r \<and> in_dailyTargetTotal r \<le> of_int n)
                            (map dr_routineLogs (in_series r))))"
    and "in_completionRate r = completion_rate (in_dailyTargetTotal r) (in_daysMetTarget r)"
    and "in_riskBand r = risk_of (in_completionRate r)"
    and "snd (insights_weekly ev uid d) = snd (ensure_user uid d)"
    by (simp_all add: r_def insights_weekly_def e Let_def a filter_map comp_def)
qed

lemma completion_rate_values:
  "map (\<lambda>n. js_round (js_mul (js_div (of_int n) 7) 100)) [0, 1, 2, 3, 4, 5, 6, 7]
     = [0, 14, 29, 43, 57, 71, 86, 100]"
  by code_simp

lemma completion_rate_exact:
  assumes "0 \<le> n" "n \<le> 7"
  shows "js_round (js_mul (js_div (of_int n) 7) 100) = \<lfloor>of_int n / 7 * 100 + 1 / 2 :: real\<rfloor>"
proof -
  have all: "\<forall>k\<in>set [0, 1, 2, 3, 4, 5, 6, 7 :: int].
      js_round (js_mul (js_div (of_int k) 7) 100) = \<lfloor>of_int k / 7 * 100 + 1 / 2 :: real\<rfloor>"
    using completion_rate_values by simp
  have "n \<in> set [0, 1, 2, 3, 4, 5, 6, 7 :: int]"
    using assms by simp presburger
  with all show ?thesis by blast
qed

lemma risk_of_iff:
  "risk_of c = Green \<longleftrightarrow> 70 \<le> c"
  "risk_of c = Amber \<longleftrightarrow> 40 \<le> c \<and> c < 70"
  "risk_of c = Red \<longleftrightarrow> c < 40"
  by (auto simp: risk_of_def)

lemma js_add_0_1: "js_add 0 1 = 1"
  by code_simp

lemmas week_defs = week_db_def day_log_def logs_on_def window_days_def activeRoutines_def
  routine_of_def seeded_db_def at_time_def

lemma number_or_nonzero: "dflt \<noteq> 0 \<Longrightarrow> number_or n dflt \<noteq> 0"
  by (simp add: number_or_def split: option.splits)

lemma post_routines_Inr:
  assumes "fst (post_routines sn ev uid title dt bp d) = Inr row"
  shows "r_daily_target row = number_or (js_Number sn (field_default dt (Num 1))) 1"
    and "r_base_points row = number_or (js_Number sn (field_default bp (Num 6))) 6"
    and "r_id row = new_id ev" and "r_user_id row = uid" and "r_active row"
    and "routines (snd (post_routines sn ev uid title dt bp d)) = routines d @ [row]"
proof -
  obtain u0 d1 where e: "ensure_user uid d = (u0, d1)" by (cases "ensure_user uid d")
  have r1: "routines d1 = routines d" using ensure_user_tables(3)[of uid d] by (simp add: e)
  from assms obtain t where t: "title = Some t" "t \<noteq> []"
    by (cases title) (auto simp: post_routines_def e Let_def split: if_splits)
  define row' where "row' = \<lparr>r_id = new_id ev, r_user_id = uid, r_title = t,
       r_base_points = number_or (js_Number sn (field_default bp (Num 6))) 6,
       r_daily_target = number_or (js_Number sn (field_default dt (Num 1))) 1,
       r_active = True\<rparr>"
  have p: "post_routines sn ev uid title dt bp d = (Inr row', d1\<lparr>routines := routines d1 @ [row']\<rparr>)"
    using t by (simp add: post_routines_def e Let_def row'_def)
  have rr: "row = row'" using assms by (simp add: p)
  show "r_daily_target row = number_or (js_Number sn (field_default dt (Num 1))) 1"
    and "r_base_points row = number_or (js_Number sn (field_default bp (Num 6))) 6"
    and "r_id row = new_id ev" and "r_user_id row = uid" and "r_active row"
    by (simp_all add: rr row'_def)
  show "routines (snd (post_routines sn ev uid title dt bp d)) = routines d @ [row]"
    by (simp add: p rr r1)
qed

lemma nonpositive_target_blocks:
  assumes "getRoutineById d rid uid = Some rt" "r_daily_target rt \<le> 0"
  shows "fst (post_routine_log ev uid rid d) = Inl LIMIT_REACHED"
proof -
  have "0 \<le> countRoutineLogsToday d rid uid (today ev)" by (simp add: countRoutineLogsToday_def)
  then have "(0::real) \<le> of_int (countRoutineLogsToday d rid uid (today ev))" by simp
  with assms(2) have "r_daily_target rt \<le> of_int (countRoutineLogsToday d rid uid (today ev))"
    by linarith
  then show ?thesis using post_routine_log_gate(1)[OF assms(1)] by simp
qed

lemmas create_defs = post_routines_def field_default_def js_Number_def number_or_def

lemma post_runs_Inl:
  "fst (post_runs ev uid qid d) = Inl e \<Longrightarrow> snd (post_runs ev uid qid d) = snd (ensure_user uid d)"
  by (cases "ensure_user uid d") (auto simp: post_runs_def split: option.splits)

lemma post_routine_log_Inl:
  "fst (post_routine_log ev uid rid d) = Inl e \<Longrightarrow>
     snd (post_routine_log ev uid rid d) = snd (ensure_user uid d)"
  by (cases "ensure_user uid d") (auto simp: post_routine_log_def split: option.splits if_splits)

section \<open>The streak engine\<close>

text \<open>
  Claim C1 states the streak update of a completion by the calendar difference between
  today and the last active date: with no last active date the streak becomes 1, a
  difference of 0 leaves it unchanged, a difference of 1 adds exactly 1, any other
  difference resets it to 1, and the last active date becomes today. The code takes the
  difference from \<open>dayjs(today).diff(dayjs(last), "day")\<close>, and the comment on its
  first branch reads \<open>same day \<rightarrow> keep streak\<close>; but that difference is
  elapsed time, with the fraction dropped. Where a clock change skips a midnight the two
  part. On a server in Havana, a user on a streak of 3 whose last completion was on
  2025-03-09 and who completes the quest \<open>q1\<close> on 2025-03-10, the next calendar
  date, keeps a streak of 3, where the claim gives 4; on 2025-03-11, after a date without
  a completion, the same user reaches a streak of 4, where the claim gives 1. On a server
  on UTC the same two requests give 4 and 1. (Where the zone keeps whole days between
  the two dates, the update is the one the claim states: \<open>applyStreakProgress_whole_days\<close>.)
\<close>

theorem C1_streak_clock_change:
  "current_streak (applyStreakProgress (havana_time 1741608000000 20157 ''a'') havana_user) = 3
   \<and> current_streak (applyStreakProgress (havana_time 1741694400000 20158 ''a'') havana_user) = 4
   \<and> fst (post_runs (havana_time 1741608000000 20157 ''a'') ''u'' ''q1''
          (seeded_db\<lparr>users := [havana_user]\<rparr>))
     = Inr \<lparr>rr_questId = ''q1'', rr_gainedXP = 12, rr_streakApplied = 3,
            rr_progress = \<lparr>u_id = ''u'', total_xp = 52, level = 4, current_streak = 3,
              longest_streak = 3, last_active_local_date = Some 20157, avatar_tier = 0\<rparr>,
            rr_basePoints = 10, rr_multiplier = fl (115 / 100), rr_leveledUp = False\<rparr>
   \<and> current_streak (applyStreakProgress (at_time 1741608000000 20157 ''a'') havana_user) = 4
   \<and> current_streak (applyStreakProgress (at_time 1741694400000 20158 ''a'') havana_user) = 1"
proof -
  have m: "streakMultiplier 3 = fl (23 / 20)" using streakMultiplier_closed[of 3] by simp
  have g: "js_round (js_mul 10 (fl (23 / 20))) = 12" by code_simp
  have l: "computeLevel 52 = Some 4" using computeLevel_exact[of 3 52] by simp
  have 1: "current_streak (applyStreakProgress (havana_time 1741608000000 20157 ''a'')
             havana_user) = 3"
    by (simp add: applyStreakProgress_streak havana_time_def havana_user_def
        dayjs_diff_havana_next)
  have 2: "current_streak (applyStreakProgress (havana_time 1741694400000 20158 ''a'')
             havana_user) = 4"
    by (simp add: applyStreakProgress_streak havana_time_def havana_user_def
        dayjs_diff_havana_skip)
  have 3: "fst (post_runs (havana_time 1741608000000 20157 ''a'') ''u'' ''q1''
          (seeded_db\<lparr>users := [havana_user]\<rparr>))
     = Inr \<lparr>rr_questId = ''q1'', rr_gainedXP = 12, rr_streakApplied = 3,
            rr_progress = \<lparr>u_id = ''u'', total_xp = 52, level = 4, current_streak = 3,
              longest_streak = 3, last_active_local_date = Some 20157, avatar_tier = 0\<rparr>,
            rr_basePoints = 10, rr_multiplier = fl (115 / 100), rr_leveledUp = False\<rparr>"
    by (simp add: eval_defs havana_time_def havana_user_def dayjs_diff_havana_next m g l)
  have 4: "current_streak (applyStreakProgress (at_time 1741608000000 20157 ''a'')
             havana_user) = 4"
    by (simp add: applyStreakProgress_streak at_time_def havana_user_def dayjs_diff_utc)
  have 5: "current_streak (applyStreakProgress (at_time 1741694400000 20158 ''a'')
             havana_user) = 1"
    by (simp add: applyStreakProgress_streak at_time_def havana_user_def dayjs_diff_utc)
  show ?thesis using 1 2 3 4 5 by blast
qed

text \<open>
  Claim C2. For every integer streak, \<open>streakMultiplier\<close> returns 1 when the streak is
  below 1, and otherwise the two-decimal rounding (round half up on the decimal
  representation) of \<open>1.0 + min(0.05 * streak, 0.5) + floor(streak / 7) * 0.1\<close>, the
  arithmetic being that of JavaScript Numbers. For a streak up to \<open>10^9\<close> the rounding
  of the Numbers does not show: the result is the Number nearest to the exact decimal
  \<open>(100 + min(5 * streak, 50) + 10 * floor(streak / 7)) / 100\<close>.
\<close>

theorem C2_streakMultiplier:
  "streakMultiplier streak =
     (if streak < 1 then 1
      else round2 (js_add (js_add 1 (min (js_mul (fl (5 / 100)) (of_int streak)) (fl (5 / 10))))
                          (js_mul (of_int (js_floor (js_div (of_int streak) 7))) (fl (1 / 10)))))
   \<and> (1 \<le> streak \<and> streak \<le> 10 ^ 9 \<longrightarrow>
         streakMultiplier streak
           = fl (of_int (100 + min (5 * streak) 50 + 10 * (streak div 7)) / 100))"
  using streakMultiplier_round2[of streak] streakMultiplier_closed[of streak] by blast

text \<open>
  At streaks 0, 1, 7, 10 and 70 the multiplier is the Number written 1, 1.05, 1.45, 1.6
  and 2.5.
\<close>

theorem C2_streakMultiplier_witness:
  "streakMultiplier 0 = 1 \<and> streakMultiplier 1 = fl (105 / 100)
   \<and> streakMultiplier 7 = fl (145 / 100) \<and> streakMultiplier 10 = fl (160 / 100)
   \<and> streakMultiplier 70 = fl (250 / 100)"
  using C2_streakMultiplier[of 0] C2_streakMultiplier[of 1] C2_streakMultiplier[of 7]
    C2_streakMultiplier[of 10] C2_streakMultiplier[of 70]
  by simp

section \<open>Levels\<close>

text \<open>
  Claim C9. \<open>computeLevel\<close>, that is \<open>floor(sqrt(totalXP) / 2) + 1\<close>, is monotonic
  non-decreasing over the non-negative integers, and \<open>computeLevel(0) = 1\<close>.
\<close>

theorem C9_computeLevel_mono:
  "(0 \<le> x \<and> x \<le> y \<longrightarrow>
      (\<exists>a b. computeLevel x = Some a \<and> computeLevel y = Some b \<and> a \<le> b))
   \<and> computeLevel 0 = Some 1"
proof (intro conjI impI)
  assume xy: "0 \<le> x \<and> x \<le> y"
  have "sqrt (of_int x) \<le> sqrt (of_int y)" using xy by simp
  then have "fl (sqrt (of_int x)) \<le> fl (sqrt (of_int y))"
    using xy by (intro fl_mono) simp_all
  then have "fl (sqrt (of_int x)) / 2 \<le> fl (sqrt (of_int y)) / 2" by simp
  moreover have "0 \<le> fl (sqrt (of_int x)) / 2" using xy by (simp add: fl_nonneg)
  ultimately have "fl (fl (sqrt (of_int x)) / 2) \<le> fl (fl (sqrt (of_int y)) / 2)"
    by (intro fl_mono)
  then have le: "\<lfloor>fl (fl (sqrt (of_int x)) / 2)\<rfloor> \<le> \<lfloor>fl (fl (sqrt (of_int y)) / 2)\<rfloor>"
    by (rule floor_mono)
  have "0 \<le> fl (fl (sqrt (of_int x)) / 2)" using xy by (simp add: fl_nonneg)
  then have "0 \<le> \<lfloor>fl (fl (sqrt (of_int x)) / 2)\<rfloor>" by simp
  with le have "num_add \<lfloor>fl (fl (sqrt (of_int x)) / 2)\<rfloor> 1
                  \<le> num_add \<lfloor>fl (fl (sqrt (of_int y)) / 2)\<rfloor> 1"
    by (intro num_add_mono) simp_all
  then show "\<exists>a b. computeLevel x = Some a \<and> computeLevel y = Some b \<and> a \<le> b"
    using xy by (simp add: computeLevel_def js_floor_def js_div_def js_sqrt_def)
next
  show "computeLevel 0 = Some 1"
    by (simp add: computeLevel_def js_floor_def js_div_def js_sqrt_def fl_def num_add_exact)
qed

theorem C9_computeLevel_mono_witness:
  "(0::int) \<le> 11 \<and> (11::int) \<le> 400
   \<and> (\<exists>a b. computeLevel 11 = Some a \<and> computeLevel 400 = Some b \<and> a \<le> b)"
  using C9_computeLevel_mono[of 11 400] by simp

section \<open>Completion\<close>



text \<open>
  The product is the one of the Numbers: at a streak of 3 the multiplier is the Number
  written 1.15, which lies below 1.15, and 50 base points yield 57 XP, where the exact
  product 57.5 would round to 58.
\<close>

lemma gained_50_at_3:
  "streakMultiplier 3 = fl (115 / 100)
   \<and> js_round (js_mul 50 (fl (115 / 100))) = 57
   \<and> \<lfloor>(50::real) * (115 / 100) + 1 / 2\<rfloor> = 58"
proof -
  have "streakMultiplier 3 = fl (115 / 100)" using streakMultiplier_closed[of 3] by simp
  moreover have "js_round (js_mul 50 (fl (115 / 100))) = 57" by code_simp
  moreover have "\<lfloor>(50::real) * (115 / 100) + 1 / 2\<rfloor> = 58" by simp
  ultimately show ?thesis by blast
qed

text \<open>
  The sum is the one of the Numbers too. A routine of 10000000000000002 base points yields
  10500000000000002 XP at a streak of 1; the third log of a day adds them to a total of
  21000000000000004, and the total becomes 31500000000000008, where the exact sum is
  31500000000000006.
\<close>

lemma total_xp_third_log:
  "js_round (js_mul 10000000000000002 (fl (21 / 20))) = 10500000000000002
   \<and> num_add 0 10500000000000002 = 10500000000000002
   \<and> num_add 10500000000000002 10500000000000002 = 21000000000000004
   \<and> num_add 21000000000000004 10500000000000002 = 31500000000000008"
proof -
  have m: "fl (21 / 20) = 4728779608739021 / 2 ^ 52"
    using fl_binade[of 0 "21 / 20"] by (simp add: pow2_def round_half_even_def Let_def)
  have "fl (10000000000000002 * (4728779608739021 / 2 ^ 52)) = 10500000000000002"
    using fl_binade[of 53 "10000000000000002 * (4728779608739021 / 2 ^ 52)"]
    by (simp add: pow2_def round_half_even_def Let_def)
  then have 1: "js_round (js_mul 10000000000000002 (fl (21 / 20))) = 10500000000000002"
    by (simp add: js_round_def js_mul_def m)
  have 2: "num_add 0 10500000000000002 = 10500000000000002"
    using fl_binade[of 53 10500000000000002]
    by (simp add: num_add_def js_add_def pow2_def round_half_even_def Let_def)
  have 3: "num_add 10500000000000002 10500000000000002 = 21000000000000004"
    using fl_binade[of 54 21000000000000004]
    by (simp add: num_add_def js_add_def pow2_def round_half_even_def Let_def)
  have 4: "num_add 21000000000000004 10500000000000002 = 31500000000000008"
    using fl_binade[of 54 31500000000000006]
    by (simp add: num_add_def js_add_def pow2_def round_half_even_def Let_def)
  show ?thesis using 1 2 3 4 by blast
qed


text \<open>
  Claim C4. After every state update of a completion request, on the quest path or on the
  routine path, the longest streak is at least the current streak: for every sequence of
  requests, from every database in which every user row has this property. The streak
  update itself establishes it for the row it returns.
\<close>

theorem C4_longest_streak:
  "(streak_inv d \<longrightarrow> streak_inv (exec ers d))
   \<and> current_streak (applyStreakProgress ev u) \<le> longest_streak (applyStreakProgress ev u)"
  using exec_inv[of d ers] applyStreakProgress_longest[of ev u] by blast

theorem C4_longest_streak_witness:
  "streak_inv (seeded_db\<lparr>users := [streak_user]\<rparr>)
   \<and> streak_inv (exec [(at_time 0 101 ''a'', PostRuns ''u'' ''q1''),
                       (at_time 5 101 ''b'', PostRoutineLog ''u'' ''r1''),
                       (at_time 9 104 ''c'', PostRuns ''u'' ''q4'')]
                      (seeded_db\<lparr>users := [streak_user]\<rparr>))"
proof -
  have h: "streak_inv (seeded_db\<lparr>users := [streak_user]\<rparr>)"
    by (simp add: streak_inv_def seeded_db_def streak_user_def)
  with C4_longest_streak[of "seeded_db\<lparr>users := [streak_user]\<rparr>"] show ?thesis by blast
qed

text \<open>
  Claim C8. On a single completion, the avatar tier grows by exactly 1 if the new level is
  greater than the previous one and divisible by 5, and is unchanged otherwise; so it
  grows by at most 1, however many levels the XP skips. The row is the one persisted; a
  request that is rejected or fails writes nothing.
\<close>

theorem C8_avatar_tier:
  "(fst (post_runs ev uid qid d) = Inr resp \<longrightarrow>
      avatar_tier (rr_progress resp)
        = avatar_tier (fst (ensure_user uid d))
          + (if level (fst (ensure_user uid d)) < level (rr_progress resp)
                \<and> level (rr_progress resp) mod 5 = 0 then 1 else 0)
      \<and> getUser (snd (post_runs ev uid qid d)) uid = Some (rr_progress resp))
   \<and> (fst (post_routine_log ev uid rid d) = Inr lresp \<longrightarrow>
      avatar_tier (lr_progress lresp)
        = avatar_tier (fst (ensure_user uid d))
          + (if level (fst (ensure_user uid d)) < level (lr_progress lresp)
                \<and> level (lr_progress lresp) mod 5 = 0 then 1 else 0)
      \<and> getUser (snd (post_routine_log ev uid rid d)) uid = Some (lr_progress lresp))
   \<and> (fst (post_runs ev uid qid d) = Inl e \<longrightarrow>
        snd (post_runs ev uid qid d) = snd (ensure_user uid d))
   \<and> (fst (post_routine_log ev uid rid d) = Inl e' \<longrightarrow>
        snd (post_routine_log ev uid rid d) = snd (ensure_user uid d))"
proof (intro conjI impI)
  assume a: "fst (post_runs ev uid qid d) = Inr resp"
  then obtain q where q: "getQuest (snd (ensure_user uid d)) qid = Some q"
    using post_runs_Inr_quest by blast
  note aw = post_runs_Inr(2)[OF a q] and us = post_runs_Inr(6)[OF a q]
  show "avatar_tier (rr_progress resp)
        = avatar_tier (fst (ensure_user uid d))
          + (if level (fst (ensure_user uid d)) < level (rr_progress resp)
                \<and> level (rr_progress resp) mod 5 = 0 then 1 else 0)"
    by (rule award_Some(9)[OF aw])
  have "u_id (rr_progress resp) = uid"
    using award_Some(4)[OF aw] by (simp add: ensure_user_fst_id)
  with getUser_upsert[OF us]
  show "getUser (snd (post_runs ev uid qid d)) uid = Some (rr_progress resp)" by simp
next
  assume a: "fst (post_routine_log ev uid rid d) = Inr lresp"
  then obtain rt where rt: "getRoutineById (snd (ensure_user uid d)) rid uid = Some rt"
    using post_routine_log_Inr_routine by blast
  note aw = post_routine_log_Inr(2)[OF a rt] and us = post_routine_log_Inr(3)[OF a rt]
  show "avatar_tier (lr_progress lresp)
        = avatar_tier (fst (ensure_user uid d))
          + (if level (fst (ensure_user uid d)) < level (lr_progress lresp)
                \<and> level (lr_progress lresp) mod 5 = 0 then 1 else 0)"
    by (rule award_Some(9)[OF aw])
  have "u_id (lr_progress lresp) = uid"
    using award_Some(4)[OF aw] by (simp add: ensure_user_fst_id)
  with getUser_upsert[OF us]
  show "getUser (snd (post_routine_log ev uid rid d)) uid = Some (lr_progress lresp)" by simp
next
  assume "fst (post_runs ev uid qid d) = Inl e"
  then show "snd (post_runs ev uid qid d) = snd (ensure_user uid d)" by (rule post_runs_Inl)
next
  assume "fst (post_routine_log ev uid rid d) = Inl e'"
  then show "snd (post_routine_log ev uid rid d) = snd (ensure_user uid d)"
    by (rule post_routine_log_Inl)
qed

text \<open>
  A first routine log worth 340 XP takes a new user from level 1 to level 10, past level
  5: the tier grows once. A first quest worth 11 XP leads to level 2: the tier stays.
\<close>

theorem C8_avatar_tier_witness:
  "fst (post_routine_log (at_time 0 100 ''a'') ''u'' ''r1''
         (seeded_db\<lparr>routines := [routine_of ''r1'' 324 1]\<rparr>))
     = Inr \<lparr>lr_routineId = ''r1'', lr_gainedXP = 340, lr_localDate = 100,
            lr_progress = \<lparr>u_id = ''u'', total_xp = 340, level = 10, current_streak = 1,
              longest_streak = 1, last_active_local_date = Some 100, avatar_tier = 1\<rparr>\<rparr>
   \<and> level (fst (ensure_user ''u'' (seeded_db\<lparr>routines := [routine_of ''r1'' 324 1]\<rparr>))) = 1
   \<and> avatar_tier (fst (ensure_user ''u'' (seeded_db\<lparr>routines := [routine_of ''r1'' 324 1]\<rparr>)))
       + 1 = 1
   \<and> fst (post_runs (at_time 0 100 ''a'') ''u'' ''q1'' seeded_db)
     = Inr \<lparr>rr_questId = ''q1'', rr_gainedXP = 11, rr_streakApplied = 1,
            rr_progress = \<lparr>u_id = ''u'', total_xp = 11, level = 2, current_streak = 1,
              longest_streak = 1, last_active_local_date = Some 100, avatar_tier = 0\<rparr>,
            rr_basePoints = 10, rr_multiplier = fl (21 / 20), rr_leveledUp = True\<rparr>
   \<and> avatar_tier (fst (ensure_user ''u'' seeded_db)) = 0"
proof -
  have h1: "fst (post_routine_log (at_time 0 100 ''a'') ''u'' ''r1''
         (seeded_db\<lparr>routines := [routine_of ''r1'' 324 1]\<rparr>))
     = Inr \<lparr>lr_routineId = ''r1'', lr_gainedXP = 340, lr_localDate = 100,
            lr_progress = \<lparr>u_id = ''u'', total_xp = 340, level = 10, current_streak = 1,
              longest_streak = 1, last_active_local_date = Some 100, avatar_tier = 1\<rparr>\<rparr>"
    by (simp add: eval_defs streakMultiplier_1 gained_324_at_1 computeLevel_340)
  have h2: "fst (post_runs (at_time 0 100 ''a'') ''u'' ''q1'' seeded_db)
     = Inr \<lparr>rr_questId = ''q1'', rr_gainedXP = 11, rr_streakApplied = 1,
            rr_progress = \<lparr>u_id = ''u'', total_xp = 11, level = 2, current_streak = 1,
              longest_streak = 1, last_active_local_date = Some 100, avatar_tier = 0\<rparr>,
            rr_basePoints = 10, rr_multiplier = fl (21 / 20), rr_leveledUp = True\<rparr>"
    by (simp add: eval_defs streakMultiplier_1 gained_10_at_1 computeLevel_11)
  from C8_avatar_tier[where ev = "at_time 0 100 ''a''" and uid = "''u''" and qid = "''q1''"
      and d = seeded_db, THEN conjunct1, rule_format, OF h2]
  have "avatar_tier (fst (ensure_user ''u'' seeded_db)) = 0" by simp
  moreover
  from C8_avatar_tier[where ev = "at_time 0 100 ''a''" and uid = "''u''" and rid = "''r1''"
      and d = "seeded_db\<lparr>routines := [routine_of ''r1'' 324 1]\<rparr>",
      THEN conjunct2, THEN conjunct1, rule_format, OF h1]
  have "avatar_tier (fst (ensure_user ''u'' (seeded_db\<lparr>routines := [routine_of ''r1'' 324 1]\<rparr>)))
       + 1 = 1"
    by (simp add: eval_defs)
  moreover
  have "level (fst (ensure_user ''u'' (seeded_db\<lparr>routines := [routine_of ''r1'' 324 1]\<rparr>))) = 1"
    by (simp add: eval_defs)
  ultimately show ?thesis using h1 h2 by blast
qed

section \<open>The cooldown gate\<close>

text \<open>
  Claim C5. For a quest found in the catalog, the request is rejected with
  \<open>RATE_LIMITED\<close> exactly when the cooldown is positive and the time elapsed since the
  user's most recent run of that quest is strictly less than the cooldown; the rejection
  carries the remaining time in seconds, rounded up (\<open>Math.ceil\<close> of the quotient by
  1000, which is the exact ceiling as long as the remaining time is below \<open>2^42\<close>
  seconds), and writes nothing. A quest with a cooldown of 0, or without a prior run of
  this user, is never rejected for cooldown. The run consulted is one of this user and
  quest with the greatest timestamp.
\<close>

theorem C5_cooldown:
  "getQuest d qid = Some q \<longrightarrow>
     ((\<exists>w. fst (post_runs ev uid qid d) = Inl (RATE_LIMITED w))
        \<longleftrightarrow> 0 < q_cooldown_sec q
            \<and> (\<exists>l. lastRunForQuest d uid qid = Some l
                   \<and> now_ms ev - run_created_at l < q_cooldown_sec q * 1000))
   \<and> (\<forall>l. 0 < q_cooldown_sec q \<and> lastRunForQuest d uid qid = Some l
            \<and> now_ms ev - run_created_at l < q_cooldown_sec q * 1000 \<longrightarrow>
          post_runs ev uid qid d
            = (Inl (RATE_LIMITED (js_ceil (js_div
                 (of_int (q_cooldown_sec q * 1000 - (now_ms ev - run_created_at l))) 1000))),
               snd (ensure_user uid d))
          \<and> (q_cooldown_sec q * 1000 - (now_ms ev - run_created_at l) \<le> 1000 * 2 ^ 42 \<longrightarrow>
               js_ceil (js_div
                 (of_int (q_cooldown_sec q * 1000 - (now_ms ev - run_created_at l))) 1000)
               = \<lceil>of_int (q_cooldown_sec q * 1000 - (now_ms ev - run_created_at l)) / (1000::real)\<rceil>))
   \<and> (q_cooldown_sec q = 0
        \<or> \<not> (\<exists>r\<in>set (runs d). run_user_id r = uid \<and> run_quest_id r = qid) \<longrightarrow>
          (\<forall>w. fst (post_runs ev uid qid d) \<noteq> Inl (RATE_LIMITED w)))
   \<and> (\<forall>l. lastRunForQuest d uid qid = Some l \<longrightarrow>
          l \<in> set (runs d) \<and> run_user_id l = uid \<and> run_quest_id l = qid
          \<and> (\<forall>r\<in>set (runs d). run_user_id r = uid \<and> run_quest_id r = qid
                \<longrightarrow> run_created_at r \<le> run_created_at l))"
proof (intro impI conjI allI)
  assume "getQuest d qid = Some q"
  then have q: "getQuest (snd (ensure_user uid d)) qid = Some q" by simp
  note g = post_runs_gate[OF q, of ev]
  show "(\<exists>w. fst (post_runs ev uid qid d) = Inl (RATE_LIMITED w))
        \<longleftrightarrow> 0 < q_cooldown_sec q
            \<and> (\<exists>l. lastRunForQuest d uid qid = Some l
                   \<and> now_ms ev - run_created_at l < q_cooldown_sec q * 1000)"
    by (simp add: g(1) cooldown_wait_Some)
  {
    fix l
    assume a: "0 < q_cooldown_sec q \<and> lastRunForQuest d uid qid = Some l
            \<and> now_ms ev - run_created_at l < q_cooldown_sec q * 1000"
    then have "cooldown_wait (now_ms ev) q (lastRunForQuest (snd (ensure_user uid d)) uid qid)
       = Some (js_ceil (js_div
                 (of_int (q_cooldown_sec q * 1000 - (now_ms ev - run_created_at l))) 1000))"
      by (simp add: cooldown_wait_Some)
    from g(2)[OF this]
    show "post_runs ev uid qid d
            = (Inl (RATE_LIMITED (js_ceil (js_div
                 (of_int (q_cooldown_sec q * 1000 - (now_ms ev - run_created_at l))) 1000))),
               snd (ensure_user uid d))" .
    assume "q_cooldown_sec q * 1000 - (now_ms ev - run_created_at l) \<le> 1000 * 2 ^ 42"
    then show "js_ceil (js_div
                 (of_int (q_cooldown_sec q * 1000 - (now_ms ev - run_created_at l))) 1000)
               = \<lceil>of_int (q_cooldown_sec q * 1000 - (now_ms ev - run_created_at l)) / (1000::real)\<rceil>"
      using a by (intro js_ceil_div_1000) simp_all
  }
  {
    fix w
    assume "q_cooldown_sec q = 0
        \<or> \<not> (\<exists>r\<in>set (runs d). run_user_id r = uid \<and> run_quest_id r = qid)"
    then show "fst (post_runs ev uid qid d) \<noteq> Inl (RATE_LIMITED w)"
      using lastRunForQuest_None[of d uid qid]
      by (auto simp: g(1) cooldown_wait_Some)
  }
  {
    fix l
    assume l: "lastRunForQuest d uid qid = Some l"
    from lastRunForQuest_Some[OF l]
    show "l \<in> set (runs d)" "run_user_id l = uid" "run_quest_id l = qid"
      "\<forall>r\<in>set (runs d). run_user_id r = uid \<and> run_quest_id r = qid
                \<longrightarrow> run_created_at r \<le> run_created_at l"
      by blast+
  }
qed

text \<open>
  The quest \<open>q2\<close> has a cooldown of 3600 seconds. After a completion at time 0, an
  attempt at 1800 s is rejected with 1800 seconds to wait and leaves the database as it
  is, an attempt at 3601 s is accepted, and the quest \<open>q1\<close>, without cooldown, is not
  rejected for cooldown.
\<close>

theorem C5_cooldown_witness:
  "snd (post_runs (at_time 0 100 ''a'') ''u'' ''q2'' seeded_db) = watered_db
   \<and> getQuest watered_db ''q2''
       = Some \<lparr>q_id = ''q2'', q_base_points = 5, q_cooldown_sec = 3600, q_active = True\<rparr>
   \<and> lastRunForQuest watered_db ''u'' ''q2'' = Some water_run
   \<and> post_runs (at_time 1800000 100 ''b'') ''u'' ''q2'' watered_db
       = (Inl (RATE_LIMITED 1800), watered_db)
   \<and> fst (post_runs (at_time 3601000 100 ''c'') ''u'' ''q2'' watered_db)
       = Inr \<lparr>rr_questId = ''q2'', rr_gainedXP = 5, rr_streakApplied = 1,
            rr_progress = \<lparr>u_id = ''u'', total_xp = 10, level = 2, current_streak = 1,
              longest_streak = 1, last_active_local_date = Some 100, avatar_tier = 0\<rparr>,
            rr_basePoints = 5, rr_multiplier = fl (21 / 20), rr_leveledUp = False\<rparr>
   \<and> \<not> (\<exists>w. fst (post_runs (at_time 3601000 100 ''c'') ''u'' ''q2'' watered_db)
                = Inl (RATE_LIMITED w))
   \<and> getQuest watered_db ''q1''
       = Some \<lparr>q_id = ''q1'', q_base_points = 10, q_cooldown_sec = 0, q_active = True\<rparr>
   \<and> (\<forall>w. fst (post_runs (at_time 1800000 100 ''b'') ''u'' ''q1'' watered_db)
            \<noteq> Inl (RATE_LIMITED w))"
proof -
  have w0: "snd (post_runs (at_time 0 100 ''a'') ''u'' ''q2'' seeded_db) = watered_db"
    by (simp add: eval_defs watered_db_def water_run_def streakMultiplier_1 gained_5_at_1
        computeLevel_5)
  have w1: "fst (post_runs (at_time 3601000 100 ''c'') ''u'' ''q2'' watered_db)
       = Inr \<lparr>rr_questId = ''q2'', rr_gainedXP = 5, rr_streakApplied = 1,
            rr_progress = \<lparr>u_id = ''u'', total_xp = 10, level = 2, current_streak = 1,
              longest_streak = 1, last_active_local_date = Some 100, avatar_tier = 0\<rparr>,
            rr_basePoints = 5, rr_multiplier = fl (21 / 20), rr_leveledUp = False\<rparr>"
    by (simp add: eval_defs watered_db_def water_run_def streakMultiplier_1 gained_5_at_1
        computeLevel_10)
  have q2: "getQuest watered_db ''q2''
       = Some \<lparr>q_id = ''q2'', q_base_points = 5, q_cooldown_sec = 3600, q_active = True\<rparr>"
    and q1: "getQuest watered_db ''q1''
       = Some \<lparr>q_id = ''q1'', q_base_points = 10, q_cooldown_sec = 0, q_active = True\<rparr>"
    by (simp_all add: eval_defs watered_db_def)
  have l: "lastRunForQuest watered_db ''u'' ''q2'' = Some water_run"
    by (simp add: eval_defs watered_db_def water_run_def)
  have e: "snd (ensure_user ''u'' watered_db) = watered_db"
    by (simp add: eval_defs watered_db_def)
  note t1 = C5_cooldown[where ev = "at_time 1800000 100 ''b''" and uid = "''u''"
      and qid = "''q2''" and d = watered_db, THEN mp, OF q2]
  from t1[THEN conjunct2, THEN conjunct1, rule_format, of water_run] l
  have r1: "post_runs (at_time 1800000 100 ''b'') ''u'' ''q2'' watered_db
       = (Inl (RATE_LIMITED 1800), watered_db)"
    by (simp add: e at_time_def water_run_def)
  note t2 = C5_cooldown[where ev = "at_time 3601000 100 ''c''" and uid = "''u''"
      and qid = "''q2''" and d = watered_db, THEN mp, OF q2]
  from t2[THEN conjunct1] l
  have r2: "\<not> (\<exists>w. fst (post_runs (at_time 3601000 100 ''c'') ''u'' ''q2'' watered_db)
                = Inl (RATE_LIMITED w))"
    by (simp add: at_time_def water_run_def)
  note t3 = C5_cooldown[where ev = "at_time 1800000 100 ''b''" and uid = "''u''"
      and qid = "''q1''" and d = watered_db, THEN mp, OF q1]
  from t3[THEN conjunct2, THEN conjunct2, THEN conjunct1]
  have r3: "\<forall>w. fst (post_runs (at_time 1800000 100 ''b'') ''u'' ''q1'' watered_db)
            \<noteq> Inl (RATE_LIMITED w)"
    by simp
  show ?thesis using w0 w1 q2 q1 l r1 r2 r3 by blast
qed

section \<open>The daily target of a routine\<close>



section \<open>The weekly aggregator\<close>

text \<open>
  Claim C7. In the weekly report, \<open>dailyTargetTotal\<close> is the sum of the daily targets of
  the user's active routines, \<open>daysMetTarget\<close> counts the days of the seven-day window
  on which the total is positive and reached by that day's routine logs, and
  \<open>completionRate\<close> is \<open>round((daysMetTarget / 7) * 100)\<close> when the total is positive
  and 0 otherwise (the rounding of the Numbers gives the exact rounded value). The risk
  band is Green iff the rate is at least 70, Amber iff it is at least 40 and below 70, Red
  otherwise. A window without routine logs yields rate 0 and band Red; a user without
  active routines has rate 0 whatever the quest activity. The report writes nothing.
\<close>

theorem C7_weekly_insights:
  fixes ev :: env and uid :: string and d :: db
  defines "r \<equiv> fst (insights_weekly ev uid d)"
  shows "in_dailyTargetTotal r
           = foldl (\<lambda>acc rt. js_add acc (r_daily_target rt)) 0 (activeRoutines d uid)
   \<and> in_daysMetTarget r
       = int (length (filter (\<lambda>date. 0 < in_dailyTargetTotal r
                                    \<and> in_dailyTargetTotal r \<le> of_int (logs_on d uid date))
                        (window_days (today ev))))
   \<and> in_completionRate r
       = (if 0 < in_dailyTargetTotal r
          then js_round (js_mul (js_div (of_int (in_daysMetTarget r)) 7) 100) else 0)
   \<and> in_completionRate r
       = (if 0 < in_dailyTargetTotal r
          then \<lfloor>of_int (in_daysMetTarget r) / 7 * 100 + 1 / 2 :: real\<rfloor> else 0)
   \<and> (in_riskBand r = Green \<longleftrightarrow> 70 \<le> in_completionRate r)
   \<and> (in_riskBand r = Amber \<longleftrightarrow> 40 \<le> in_completionRate r \<and> in_completionRate r < 70)
   \<and> (in_riskBand r = Red \<longleftrightarrow> in_completionRate r < 40)
   \<and> ((\<forall>date\<in>set (window_days (today ev)). logs_on d uid date = 0) \<longrightarrow>
         in_completionRate r = 0 \<and> in_riskBand r = Red)
   \<and> (activeRoutines d uid = [] \<longrightarrow> in_completionRate r = 0)
   \<and> snd (insights_weekly ev uid d) = snd (ensure_user uid d)"
proof -
  note f = insights_fields[of ev uid d, folded r_def]
  define T where "T = in_dailyTargetTotal r"
  have c1: "in_dailyTargetTotal r
           = foldl (\<lambda>acc rt. js_add acc (r_daily_target rt)) 0 (activeRoutines d uid)"
    by (rule f(1))
  have days: "in_daysMetTarget r
       = int (length (filter (\<lambda>date. 0 < T \<and> T \<le> of_int (logs_on d uid date))
                        (window_days (today ev))))"
  proof -
    have m: "map dr_routineLogs (in_series r) = map (logs_on d uid) (window_days (today ev))"
      unfolding r_def by (rule series_routineLogs)
    show ?thesis using f(2) by (simp add: m T_def filter_map comp_def)
  qed
  have "length (filter (\<lambda>date. 0 < T \<and> T \<le> of_int (logs_on d uid date)) (window_days (today ev)))
          \<le> length (window_days (today ev))"
    by (rule length_filter_le)
  then have bound: "0 \<le> in_daysMetTarget r" "in_daysMetTarget r \<le> 7"
    unfolding days by (simp_all add: window_days_def)
  have c3: "in_completionRate r
       = (if 0 < in_dailyTargetTotal r
          then js_round (js_mul (js_div (of_int (in_daysMetTarget r)) 7) 100) else 0)"
    by (simp add: f(3) completion_rate_def)
  have c4: "in_completionRate r
       = (if 0 < in_dailyTargetTotal r
          then \<lfloor>of_int (in_daysMetTarget r) / 7 * 100 + 1 / 2 :: real\<rfloor> else 0)"
    unfolding c3 completion_rate_exact[OF bound] ..
  have c5: "in_riskBand r = Green \<longleftrightarrow> 70 \<le> in_completionRate r"
    and c6: "in_riskBand r = Amber \<longleftrightarrow> 40 \<le> in_completionRate r \<and> in_completionRate r < 70"
    and c7: "in_riskBand r = Red \<longleftrightarrow> in_completionRate r < 40"
    by (simp_all add: f(4) risk_of_iff)
  have c8: "(\<forall>date\<in>set (window_days (today ev)). logs_on d uid date = 0) \<longrightarrow>
         in_completionRate r = 0 \<and> in_riskBand r = Red"
  proof
    assume z: "\<forall>date\<in>set (window_days (today ev)). logs_on d uid date = 0"
    have "in_completionRate r = 0"
    proof (cases "0 < T")
      case True
      have "filter (\<lambda>date. 0 < T \<and> T \<le> of_int (logs_on d uid date)) (window_days (today ev)) = []"
        using z True by (auto simp: filter_empty_conv)
      then have "in_daysMetTarget r = 0" by (simp add: days)
      then show ?thesis unfolding c4 by simp
    next
      case False
      then show ?thesis unfolding c4 by (simp add: T_def)
    qed
    then show "in_completionRate r = 0 \<and> in_riskBand r = Red" by (simp add: c7)
  qed
  have c9: "activeRoutines d uid = [] \<longrightarrow> in_completionRate r = 0"
    unfolding c4 by (simp add: c1)
  have c2: "in_daysMetTarget r
       = int (length (filter (\<lambda>date. 0 < in_dailyTargetTotal r
                                    \<and> in_dailyTargetTotal r \<le> of_int (logs_on d uid date))
                        (window_days (today ev))))"
    using days by (simp add: T_def)
  from c1 c2 c3 c4 c5 c6 c7 c8 c9 f(5) show ?thesis by (intro conjI)
qed

text \<open>
  With a daily target of 1 and today = day 100: logs on five days give 71 and Green, logs on
  three days give 43 and Amber, no log gives 0 and Red; and the database with a quest run
  but no routine gives 0.
\<close>

theorem C7_weekly_insights_witness:
  "in_completionRate (fst (insights_weekly (at_time 0 100 ''x'') ''u''
       (week_db [96, 97, 98, 99, 100]))) = 71
   \<and> in_riskBand (fst (insights_weekly (at_time 0 100 ''x'') ''u''
       (week_db [96, 97, 98, 99, 100]))) = Green
   \<and> in_completionRate (fst (insights_weekly (at_time 0 100 ''x'') ''u''
       (week_db [98, 99, 100]))) = 43
   \<and> in_riskBand (fst (insights_weekly (at_time 0 100 ''x'') ''u''
       (week_db [98, 99, 100]))) = Amber
   \<and> map (logs_on (week_db []) ''u'') (window_days (today (at_time 0 100 ''x'')))
       = [0, 0, 0, 0, 0, 0, 0]
   \<and> in_completionRate (fst (insights_weekly (at_time 0 100 ''x'') ''u'' (week_db []))) = 0
   \<and> in_riskBand (fst (insights_weekly (at_time 0 100 ''x'') ''u'' (week_db []))) = Red
   \<and> activeRoutines watered_db ''u'' = []
   \<and> in_completionRate (fst (insights_weekly (at_time 0 100 ''x'') ''u'' watered_db)) = 0"
proof -
  note t5 = C7_weekly_insights[of "at_time 0 100 ''x''" "''u''" "week_db [96, 97, 98, 99, 100]"]
  have T5: "in_dailyTargetTotal (fst (insights_weekly (at_time 0 100 ''x'') ''u''
       (week_db [96, 97, 98, 99, 100]))) = 1"
    using t5[THEN conjunct1] by (simp add: week_defs js_add_0_1)
  have D5: "in_daysMetTarget (fst (insights_weekly (at_time 0 100 ''x'') ''u''
       (week_db [96, 97, 98, 99, 100]))) = 5"
    using t5[THEN conjunct2, THEN conjunct1] unfolding T5 by (simp add: week_defs)
  have R5: "in_completionRate (fst (insights_weekly (at_time 0 100 ''x'') ''u''
       (week_db [96, 97, 98, 99, 100]))) = 71"
    using t5[THEN conjunct2, THEN conjunct2, THEN conjunct2, THEN conjunct1]
    unfolding T5 D5 by simp
  have B5: "in_riskBand (fst (insights_weekly (at_time 0 100 ''x'') ''u''
       (week_db [96, 97, 98, 99, 100]))) = Green"
    using t5[THEN conjunct2, THEN conjunct2, THEN conjunct2, THEN conjunct2, THEN conjunct1]
    unfolding R5 by simp
  note t3 = C7_weekly_insights[of "at_time 0 100 ''x''" "''u''" "week_db [98, 99, 100]"]
  have T3: "in_dailyTargetTotal (fst (insights_weekly (at_time 0 100 ''x'') ''u''
       (week_db [98, 99, 100]))) = 1"
    using t3[THEN conjunct1] by (simp add: week_defs js_add_0_1)
  have D3: "in_daysMetTarget (fst (insights_weekly (at_time 0 100 ''x'') ''u''
       (week_db [98, 99, 100]))) = 3"
    using t3[THEN conjunct2, THEN conjunct1] unfolding T3 by (simp add: week_defs)
  have R3: "in_completionRate (fst (insights_weekly (at_time 0 100 ''x'') ''u''
       (week_db [98, 99, 100]))) = 43"
    using t3[THEN conjunct2, THEN conjunct2, THEN conjunct2, THEN conjunct1]
    unfolding T3 D3 by simp
  have B3: "in_riskBand (fst (insights_weekly (at_time 0 100 ''x'') ''u''
       (week_db [98, 99, 100]))) = Amber"
    using t3[THEN conjunct2, THEN conjunct2, THEN conjunct2, THEN conjunct2, THEN conjunct2,
        THEN conjunct1]
    unfolding R3 by simp
  have z: "\<forall>date\<in>set (window_days (today (at_time 0 100 ''x''))). logs_on (week_db []) ''u'' date = 0"
    by (simp add: week_defs)
  note t0 = C7_weekly_insights[of "at_time 0 100 ''x''" "''u''" "week_db []"]
  from t0[THEN conjunct2, THEN conjunct2, THEN conjunct2, THEN conjunct2, THEN conjunct2,
        THEN conjunct2, THEN conjunct2, THEN conjunct1, THEN mp, OF z]
  have R0: "in_completionRate (fst (insights_weekly (at_time 0 100 ''x'') ''u'' (week_db []))) = 0"
    and B0: "in_riskBand (fst (insights_weekly (at_time 0 100 ''x'') ''u'' (week_db []))) = Red"
    by blast+
  have a: "activeRoutines watered_db ''u'' = []"
    by (simp add: activeRoutines_def watered_db_def seeded_db_def)
  note tw = C7_weekly_insights[of "at_time 0 100 ''x''" "''u''" watered_db]
  from tw[THEN conjunct2, THEN conjunct2, THEN conjunct2, THEN conjunct2, THEN conjunct2,
        THEN conjunct2, THEN conjunct2, THEN conjunct2, THEN conjunct1, THEN mp, OF a]
  have Rw: "in_completionRate (fst (insights_weekly (at_time 0 100 ''x'') ''u'' watered_db)) = 0" .
  have z': "map (logs_on (week_db []) ''u'') (window_days (today (at_time 0 100 ''x'')))
       = [0, 0, 0, 0, 0, 0, 0]"
    by (simp add: week_defs)
  from R5 B5 R3 B3 z' R0 B0 a Rw show ?thesis by (intro conjI)
qed

section \<open>Creating a routine\<close>

text \<open>
  Claim C10, as the code has it. A routine created from a request whose \<open>dailyTarget\<close> and
  \<open>basePoints\<close> are not negative numbers is stored with a positive daily target and
  positive base points: a \<open>dailyTarget\<close> that is 0, absent or not numeric is stored as 1,
  a \<open>basePoints\<close> that is 0, absent or not numeric as 6. Whatever the request, the stored
  daily target is never 0, nor are the stored base points.
\<close>

theorem C10_create_routine:
  "fst (post_routines sn ev uid title dt bp d) = Inr row \<longrightarrow>
     routines (snd (post_routines sn ev uid title dt bp d)) = routines d @ [row]
   \<and> r_daily_target row \<noteq> 0 \<and> r_base_points row \<noteq> 0
   \<and> (dt = Undefined \<or> dt = Null \<or> js_Number sn dt = Some 0 \<or> js_Number sn dt = None
        \<longrightarrow> r_daily_target row = 1)
   \<and> (bp = Undefined \<or> bp = Null \<or> js_Number sn bp = Some 0 \<or> js_Number sn bp = None
        \<longrightarrow> r_base_points row = 6)
   \<and> ((\<forall>x. js_Number sn dt = Some x \<longrightarrow> 0 \<le> x) \<longrightarrow> 0 < r_daily_target row)
   \<and> ((\<forall>x. js_Number sn bp = Some x \<longrightarrow> 0 \<le> x) \<longrightarrow> 0 < r_base_points row)"
proof (intro impI conjI)
  assume a: "fst (post_routines sn ev uid title dt bp d) = Inr row"
  note p = post_routines_Inr[OF a]
  show "routines (snd (post_routines sn ev uid title dt bp d)) = routines d @ [row]" by (rule p(6))
  show "r_daily_target row \<noteq> 0" unfolding p(1) by (rule number_or_nonzero) simp
  show "r_base_points row \<noteq> 0" unfolding p(2) by (rule number_or_nonzero) simp
  {
    assume "dt = Undefined \<or> dt = Null \<or> js_Number sn dt = Some 0 \<or> js_Number sn dt = None"
    then show "r_daily_target row = 1"
      unfolding p(1)
      by (cases dt) (auto simp: number_or_def field_default_def js_Number_def split: option.splits)
  }
  {
    assume "bp = Undefined \<or> bp = Null \<or> js_Number sn bp = Some 0 \<or> js_Number sn bp = None"
    then show "r_base_points row = 6"
      unfolding p(2)
      by (cases bp) (auto simp: number_or_def field_default_def js_Number_def split: option.splits)
  }
  {
    assume "\<forall>x. js_Number sn dt = Some x \<longrightarrow> 0 \<le> x"
    then show "0 < r_daily_target row"
      unfolding p(1)
      by (cases dt) (auto simp: number_or_def field_default_def js_Number_def split: option.splits)
  }
  {
    assume "\<forall>x. js_Number sn bp = Some x \<longrightarrow> 0 \<le> x"
    then show "0 < r_base_points row"
      unfolding p(2)
      by (cases bp) (auto simp: number_or_def field_default_def js_Number_def split: option.splits)
  }
qed

theorem C10_create_routine_witness:
  "fst (post_routines Map.empty (at_time 0 100 ''r9'') ''u'' (Some ''habit'') (Num 0) (Str ''abc'')
      seeded_db)
     = Inr \<lparr>r_id = ''r9'', r_user_id = ''u'', r_title = ''habit'', r_base_points = 6,
             r_daily_target = 1, r_active = True\<rparr>
   \<and> js_Number Map.empty (Num 0) = Some 0
   \<and> js_Number Map.empty (Str ''abc'') = None
   \<and> (0::real) < 1 \<and> (0::real) < 6
   \<and> fst (post_routines Map.empty (at_time 0 100 ''r9'') ''u'' (Some ''habit'') Undefined (Num 3)
      seeded_db)
     = Inr \<lparr>r_id = ''r9'', r_user_id = ''u'', r_title = ''habit'', r_base_points = 3,
             r_daily_target = 1, r_active = True\<rparr>"
proof -
  have h: "fst (post_routines Map.empty (at_time 0 100 ''r9'') ''u'' (Some ''habit'') (Num 0)
      (Str ''abc'') seeded_db)
     = Inr \<lparr>r_id = ''r9'', r_user_id = ''u'', r_title = ''habit'', r_base_points = 6,
             r_daily_target = 1, r_active = True\<rparr>"
    by (simp add: create_defs eval_defs)
  have h2: "fst (post_routines Map.empty (at_time 0 100 ''r9'') ''u'' (Some ''habit'') Undefined
      (Num 3) seeded_db)
     = Inr \<lparr>r_id = ''r9'', r_user_id = ''u'', r_title = ''habit'', r_base_points = 3,
             r_daily_target = 1, r_active = True\<rparr>"
    by (simp add: create_defs eval_defs)
  have n: "js_Number Map.empty (Num 0) = Some 0" "js_Number Map.empty (Str ''abc'') = None"
    by (simp_all add: js_Number_def)
  from C10_create_routine[where sn = Map.empty and ev = "at_time 0 100 ''r9''" and uid = "''u''"
      and title = "Some ''habit''" and dt = "Num 0" and bp = "Str ''abc''" and d = seeded_db,
      THEN mp, OF h] n
  have "(0::real) < 1 \<and> (0::real) < 6"
    by simp
  then show ?thesis using h h2 n by blast
qed

text \<open>
  The claim as stated promises a positive daily target for every request. A request with
  \<open>dailyTarget = -1\<close> and \<open>basePoints = -5\<close> is stored as sent, and every log attempt
  on that routine is then rejected.
\<close>

theorem C10_negative_counterexample:
  "post_routines Map.empty (at_time 0 100 ''r9'') ''u'' (Some ''habit'') (Num (- 1)) (Num (- 5))
      (seeded_db\<lparr>users := [streak_user]\<rparr>)
     = (Inr \<lparr>r_id = ''r9'', r_user_id = ''u'', r_title = ''habit'', r_base_points = - 5,
             r_daily_target = - 1, r_active = True\<rparr>,
        seeded_db\<lparr>users := [streak_user],
                  routines := [\<lparr>r_id = ''r9'', r_user_id = ''u'', r_title = ''habit'',
                                r_base_points = - 5, r_daily_target = - 1, r_active = True\<rparr>]\<rparr>)
   \<and> \<not> 0 < r_daily_target \<lparr>r_id = ''r9'', r_user_id = ''u'', r_title = ''habit'',
             r_base_points = - 5, r_daily_target = - 1, r_active = True\<rparr>
   \<and> \<not> 0 < r_base_points \<lparr>r_id = ''r9'', r_user_id = ''u'', r_title = ''habit'',
             r_base_points = - 5, r_daily_target = - 1, r_active = True\<rparr>
   \<and> fst (post_routine_log (at_time 1 101 ''l1'') ''u'' ''r9''
         (seeded_db\<lparr>users := [streak_user],
                  routines := [\<lparr>r_id = ''r9'', r_user_id = ''u'', r_title = ''habit'',
                                r_base_points = - 5, r_daily_target = - 1, r_active = True\<rparr>]\<rparr>))
     = Inl LIMIT_REACHED"
  by (simp add: create_defs eval_defs)

end
